theory Spec2Isabelle
  imports Complex_Main
begin

section \<open>Data model\<close>

text \<open>
  The messages of the smoother (\<^verbatim>\<open>autoware_planning_msgs::msg::Trajectory\<close> and the
  \<^verbatim>\<open>geometry_msgs\<close> types inside it) are records. A C++ \<^verbatim>\<open>double\<close> is a
  \<^typ>\<open>real\<close>: the development is about the control flow and the exact arithmetic of
  the formulas, not about infinities or NaN, and not about rounding except where rounding
  decides the control flow (see \<open>DoubleArith\<close> below). A \<^verbatim>\<open>size_t\<close> index is a
  \<^typ>\<open>nat\<close>; where the source's unsigned arithmetic can wrap below zero the wrap is
  written out as the out-of-range access it leads to.
\<close>

record Vector3 =
  vec_x :: real
  vec_y :: real
  vec_z :: real

record Quaternion =
  quat_x :: real
  quat_y :: real
  quat_z :: real
  quat_w :: real

record Pose =
  position :: Vector3
  orientation :: Quaternion

record Twist =
  twist_linear :: Vector3
  twist_angular :: Vector3

record Accel =
  acc_linear :: Vector3
  acc_angular :: Vector3

record TrajectoryPoint =
  pose :: Pose
  twist :: Twist
  accel :: Accel

record Header =
  stamp :: nat
  frame_id :: string

record Trajectory =
  header :: Header
  points :: "TrajectoryPoint list"

text \<open>\<^verbatim>\<open>twist.linear.x\<close> and \<^verbatim>\<open>accel.linear.x\<close> of a point, read and written.\<close>

definition vel :: "TrajectoryPoint \<Rightarrow> real" where
  "vel p = vec_x (twist_linear (twist p))"

definition acc :: "TrajectoryPoint \<Rightarrow> real" where
  "acc p = vec_x (acc_linear (accel p))"

definition set_vel :: "real \<Rightarrow> TrajectoryPoint \<Rightarrow> TrajectoryPoint" where
  "set_vel v p = p\<lparr>twist := (twist p)\<lparr>twist_linear := (twist_linear (twist p))\<lparr>vec_x := v\<rparr>\<rparr>\<rparr>"

definition set_acc :: "real \<Rightarrow> TrajectoryPoint \<Rightarrow> TrajectoryPoint" where
  "set_acc a p = p\<lparr>accel := (accel p)\<lparr>acc_linear := (acc_linear (accel p))\<lparr>vec_x := a\<rparr>\<rparr>\<rparr>"

text \<open>
  What can go wrong at run time: \<^verbatim>\<open>std::vector::at\<close> throws
  \<^verbatim>\<open>std::out_of_range\<close>, and \<^verbatim>\<open>back()\<close> of an empty vector is undefined.
\<close>

datatype error = OutOfRange | EmptyBack

definition at_vec :: "'a list \<Rightarrow> nat \<Rightarrow> error + 'a" where
  "at_vec xs i = (if i < length xs then Inr (xs ! i) else Inl OutOfRange)"

text \<open>
  In three places the rounding of a double operation decides what the program does next:
  the loops \<^verbatim>\<open>planning_jerk += span_jerk\<close> and \<^verbatim>\<open>s += points_interval\<close> run for as many
  rounds as the rounded sums allow (a step too small for the sum's precision is absorbed
  and the loop never ends), and \<^verbatim>\<open>std::round(distance / points_interval)\<close> is cast to an
  index from the rounded quotient. There the double addition and division are parameters
  of the model: what is proved of these places holds whatever the two operations return,
  so for IEEE arithmetic too. \<open>exact_arith\<close>, the arithmetic of the reals, is the instance
  of the worked examples.
\<close>

record DoubleArith =
  double_add :: "real \<Rightarrow> real \<Rightarrow> real"
  double_div :: "real \<Rightarrow> real \<Rightarrow> real"

definition exact_arith :: DoubleArith where
  "exact_arith = \<lparr>double_add = (\<lambda>x y. x + y), double_div = (\<lambda>x y. x / y)\<rparr>"

section \<open>applyMaxVelocity\<close>

text \<open>
  \<^verbatim>\<open>for (size_t i = start_index; i <= end_index; ++i)\<close>: the velocity of point \<open>i\<close> is
  capped and its acceleration zeroed; \<^verbatim>\<open>points.at(i)\<close> throws once \<open>i\<close> reaches the size.
\<close>

function applyMaxVelocity_loop ::
  "real \<Rightarrow> nat \<Rightarrow> nat \<Rightarrow> TrajectoryPoint list \<Rightarrow> error + TrajectoryPoint list" where
  "applyMaxVelocity_loop max_velocity i end_index pts =
     (if i \<le> end_index then
        (case at_vec pts i of
           Inl e \<Rightarrow> Inl e
         | Inr p \<Rightarrow>
             applyMaxVelocity_loop max_velocity (Suc i) end_index
               (pts[i := set_acc 0 (set_vel (min (vel p) max_velocity) p)]))
      else Inr pts)"
  by pat_completeness auto
termination
  by (relation "measure (\<lambda>(m, i, e, pts). Suc e - i)") auto

declare applyMaxVelocity_loop.simps [simp del]

definition applyMaxVelocity ::
  "real \<Rightarrow> nat \<Rightarrow> nat \<Rightarrow> Trajectory \<Rightarrow> error + (bool \<times> Trajectory)" where
  "applyMaxVelocity max_velocity start_index end_index output_trajectory =
     (if end_index < start_index \<or> length (points output_trajectory) < end_index then
        Inr (False, output_trajectory)
      else
        (case applyMaxVelocity_loop max_velocity start_index end_index
                (points output_trajectory) of
           Inl e \<Rightarrow> Inl e
         | Inr pts \<Rightarrow> Inr (True, output_trajectory\<lparr>points := pts\<rparr>)))"

section \<open>searchDecelTargetIndices\<close>

text \<open>
  \<^verbatim>\<open>trajectory.points.size() - 1\<close> is computed in \<^verbatim>\<open>size_t\<close> (64 bits) and wraps for
  an empty trajectory; the last index is then stored in an \<^verbatim>\<open>unsigned int\<close> (32 bits),
  and \<^verbatim>\<open>i - 1\<close> on it wraps as well.
\<close>

definition size_t_sub :: "nat \<Rightarrow> nat \<Rightarrow> nat" where
  "size_t_sub a b = (a + 2 ^ 64 - b mod 2 ^ 64) mod 2 ^ 64"

definition uint_of_size_t :: "nat \<Rightarrow> nat" where
  "uint_of_size_t a = a mod 2 ^ 32"

definition uint_sub :: "nat \<Rightarrow> nat \<Rightarrow> nat" where
  "uint_sub a b = (a + 2 ^ 32 - b mod 2 ^ 32) mod 2 ^ 32"

definition ep_dv :: real where
  "ep_dv = - (1 / 100000)"

text \<open>The first loop: interior indices from \<open>start_index\<close> up to \<open>size - 2\<close>.\<close>

function search_interior ::
  "TrajectoryPoint list \<Rightarrow> nat \<Rightarrow> nat \<Rightarrow> (nat \<times> real) list \<Rightarrow> error + (nat \<times> real) list" where
  "search_interior pts i upper tmp_indices =
     (if i < upper then
        (case at_vec pts i of
           Inl e \<Rightarrow> Inl e
         | Inr p \<Rightarrow>
        (case at_vec pts (i - 1) of
           Inl e \<Rightarrow> Inl e
         | Inr p_before \<Rightarrow>
        (case at_vec pts (i + 1) of
           Inl e \<Rightarrow> Inl e
         | Inr p_after \<Rightarrow>
             (let dv_before = vel p - vel p_before;
                  dv_after = vel p_after - vel p
              in search_interior pts (Suc i) upper
                   (if dv_before < ep_dv \<and> dv_after > ep_dv
                    then tmp_indices @ [(i, vel p)] else tmp_indices)))))
      else Inr tmp_indices)"
  by pat_completeness auto
termination
  by (relation "measure (\<lambda>(pts, i, upper, tmp). upper - i)") auto

declare search_interior.simps [simp del]

text \<open>
  The second loop, over the candidates but the last: a candidate is passed over
  (\<^verbatim>\<open>continue\<close>) when the next one is fewer than \<open>index_err = 10\<close> indices away and
  strictly slower.
\<close>

function coalesce_loop ::
  "(nat \<times> real) list \<Rightarrow> nat \<Rightarrow> (nat \<times> real) list \<Rightarrow> error + (nat \<times> real) list" where
  "coalesce_loop tmp_indices i decel_target_indices =
     (if i < size_t_sub (length tmp_indices) 1 then
        (case at_vec tmp_indices (i + 1) of
           Inl e \<Rightarrow> Inl e
         | Inr nxt \<Rightarrow>
        (case at_vec tmp_indices i of
           Inl e \<Rightarrow> Inl e
         | Inr cur \<Rightarrow>
             if size_t_sub (fst nxt) (fst cur) < 10 \<and> snd nxt < snd cur
             then coalesce_loop tmp_indices (Suc i) decel_target_indices
             else coalesce_loop tmp_indices (Suc i) (decel_target_indices @ [cur])))
      else Inr decel_target_indices)"
  by pat_completeness auto
termination
  by (relation "measure (\<lambda>(tmp, i, out). size_t_sub (length tmp) 1 - i)") auto

declare coalesce_loop.simps [simp del]

text \<open>
  The function always returns \<^verbatim>\<open>true\<close>; the model returns the vector it appends to.
\<close>

definition searchDecelTargetIndices ::
  "Trajectory \<Rightarrow> nat \<Rightarrow> (nat \<times> real) list \<Rightarrow> error + (nat \<times> real) list" where
  "searchDecelTargetIndices trajectory closest_index decel_target_indices =
     (let pts = points trajectory;
          start_index = max 1 closest_index
      in case search_interior pts start_index (size_t_sub (length pts) 1) [] of
           Inl e \<Rightarrow> Inl e
         | Inr tmp1 \<Rightarrow>
        (let i = uint_of_size_t (size_t_sub (length pts) 1) in
         case at_vec pts i of
           Inl e \<Rightarrow> Inl e
         | Inr p \<Rightarrow>
        (case at_vec pts (uint_sub i 1) of
           Inl e \<Rightarrow> Inl e
         | Inr p_before \<Rightarrow>
             (let tmp_indices =
                    (if vel p - vel p_before < ep_dv then tmp1 @ [(i, vel p)] else tmp1)
              in if tmp_indices \<noteq> [] then
                   (case coalesce_loop tmp_indices 0 decel_target_indices of
                      Inl e \<Rightarrow> Inl e
                    | Inr out \<Rightarrow> Inr (out @ [last tmp_indices]))
                 else Inr decel_target_indices))))"

text \<open>
  The deceleration targets as the specification words them: the local minima of the
  velocity profile, the final index when the velocity decreases into it, and the rule
  that passes over a candidate in favour of a close, slower successor.
\<close>

definition is_local_minimum :: "TrajectoryPoint list \<Rightarrow> nat \<Rightarrow> bool" where
  "is_local_minimum pts i \<longleftrightarrow>
     vel (pts ! i) - vel (pts ! (i - 1)) < ep_dv \<and> vel (pts ! (i + 1)) - vel (pts ! i) > ep_dv"

definition decreases_into_last :: "TrajectoryPoint list \<Rightarrow> bool" where
  "decreases_into_last pts \<longleftrightarrow>
     vel (pts ! (length pts - 1)) - vel (pts ! (length pts - 2)) < ep_dv"

definition minima_candidates :: "TrajectoryPoint list \<Rightarrow> nat \<Rightarrow> (nat \<times> real) list" where
  "minima_candidates pts closest_index =
     map (\<lambda>i. (i, vel (pts ! i)))
       (filter (is_local_minimum pts) [max 1 closest_index ..< length pts - 1])
     @ (if decreases_into_last pts
        then [(length pts - 1, vel (pts ! (length pts - 1)))] else [])"

definition is_coalesced :: "(nat \<times> real) list \<Rightarrow> nat \<Rightarrow> bool" where
  "is_coalesced cs k \<longleftrightarrow>
     Suc k < length cs \<and> fst (cs ! Suc k) - fst (cs ! k) < 10 \<and> snd (cs ! Suc k) < snd (cs ! k)"

definition local_minima_targets :: "TrajectoryPoint list \<Rightarrow> nat \<Rightarrow> (nat \<times> real) list" where
  "local_minima_targets pts closest_index =
     (let cs = minima_candidates pts closest_index
      in map (\<lambda>k. cs ! k) (filter (\<lambda>k. \<not> is_coalesced cs k) [0 ..< length cs]))"

section \<open>The velocity controller's members\<close>

text \<open>
  The members of \<^verbatim>\<open>VelocityController\<close> that carry a default member initialiser in the
  class declaration, with the values written there.
\<close>

datatype ControlState = DRIVE | STOPPING | STOPPED | EMERGENCY

datatype Shift = Forward | Reverse

record Motion =
  motion_vel :: real
  motion_acc :: real

record VelocityControllerDefaults =
  control_state :: ControlState
  prev_shift :: Shift
  prev_ctrl_cmd :: Motion
  prev_raw_ctrl_cmd :: Motion

definition VelocityController_init :: VelocityControllerDefaults where
  "VelocityController_init =
     \<lparr>control_state = STOPPED,
      prev_shift = Forward,
      prev_ctrl_cmd = \<lparr>motion_vel = 0, motion_acc = 0\<rparr>,
      prev_raw_ctrl_cmd = \<lparr>motion_vel = 0, motion_acc = 0\<rparr>\<rparr>"

section \<open>Fixtures\<close>

text \<open>
  Concrete points for the worked instances: a point at \<open>(x, y)\<close> in the plane, heading
  along the identity orientation, with a longitudinal velocity and acceleration.
\<close>

definition point_at :: "real \<Rightarrow> real \<Rightarrow> real \<Rightarrow> real \<Rightarrow> TrajectoryPoint" where
  "point_at px py v a =
     \<lparr>pose = \<lparr>position = \<lparr>vec_x = px, vec_y = py, vec_z = 0\<rparr>,
              orientation = \<lparr>quat_x = 0, quat_y = 0, quat_z = 0, quat_w = 1\<rparr>\<rparr>,
      twist = \<lparr>twist_linear = \<lparr>vec_x = v, vec_y = 0, vec_z = 0\<rparr>,
               twist_angular = \<lparr>vec_x = 0, vec_y = 0, vec_z = 0\<rparr>\<rparr>,
      accel = \<lparr>acc_linear = \<lparr>vec_x = a, vec_y = 0, vec_z = 0\<rparr>,
               acc_angular = \<lparr>vec_x = 0, vec_y = 0, vec_z = 0\<rparr>\<rparr>\<rparr>"

definition trajectory_of :: "TrajectoryPoint list \<Rightarrow> Trajectory" where
  "trajectory_of pts = \<lparr>header = \<lparr>stamp = 0, frame_id = ''map''\<rparr>, points = pts\<rparr>"

section \<open>Parameters\<close>

text \<open>
  The fields of \<^verbatim>\<open>Param\<close> (\<^verbatim>\<open>smoother_param_\<close>) and of \<^verbatim>\<open>base_param_\<close> that the
  functions below read.
\<close>

record ResampleParam =
  num_resample :: nat

record LataccParam =
  enable_constant_velocity_while_turning :: bool
  constant_velocity_dist_threshold :: real

record ForwardParam =
  fwd_max_acc :: real
  fwd_min_acc :: real
  fwd_max_jerk :: real
  fwd_min_jerk :: real
  fwd_kp :: real

record BackwardParam =
  bwd_start_jerk :: real
  bwd_min_jerk_mild_stop :: real
  bwd_min_jerk :: real
  bwd_min_acc_mild_stop :: real
  bwd_min_acc :: real
  bwd_span_jerk :: real

record Param =
  resample :: ResampleParam
  latacc :: LataccParam
  forward :: ForwardParam
  backward :: BackwardParam

record BaseParam =
  max_lateral_accel :: real
  min_curve_velocity :: real
  decel_distance_before_curve :: real
  decel_distance_after_curve :: real

section \<open>Distance between two points\<close>

text \<open>
  Modelled from the spec: \<^verbatim>\<open>autoware_utils::calcDistance2d\<close> is not part of the sources
  at hand. The specification speaks of the distance between consecutive trajectory
  points (the arc length of the path is their sum); it is the Euclidean distance of the
  two positions in the plane.
\<close>

definition calcDistance2d :: "TrajectoryPoint \<Rightarrow> TrajectoryPoint \<Rightarrow> real" where
  "calcDistance2d p1 p2 =
     sqrt ((vec_x (position (pose p1)) - vec_x (position (pose p2)))\<^sup>2 +
           (vec_y (position (pose p1)) - vec_y (position (pose p2)))\<^sup>2)"

section \<open>applyForwardJerkFilter\<close>

text \<open>
  The arithmetic of one pass of the loop body: from the previous output point
  (\<open>prev_vel\<close>, \<open>prev_acc\<close>), the distance \<open>ds\<close> to the current base point and that
  point's reference velocity, to the current velocity and acceleration.

  Where \<open>dt = 0\<close> (two base points at the same place) the C++ quotient \<open>fb_jerk\<close> is
  infinite or NaN, the clamp still yields one of the finite jerk bounds, and
  \<open>limited_jerk * dt = 0\<close>; HOL's \<open>x / 0 = 0\<close> gives the same \<open>curr_acc = prev_acc\<close>.
\<close>

definition forward_dt :: "real \<Rightarrow> real \<Rightarrow> real" where
  "forward_dt ds prev_vel = ds / max prev_vel 1"

definition forward_jerk_step :: "ForwardParam \<Rightarrow> real \<Rightarrow> real \<Rightarrow> real \<Rightarrow> real \<Rightarrow> real \<times> real" where
  "forward_jerk_step fp prev_vel prev_acc ds base_vel =
     (let dt = forward_dt ds prev_vel;
          curr_vel = prev_vel + prev_acc * dt;
          error_vel = base_vel - curr_vel;
          fb_acc = fwd_kp fp * error_vel;
          limited_acc = max (fwd_min_acc fp) (min (fwd_max_acc fp) fb_acc);
          fb_jerk = (limited_acc - prev_acc) / dt;
          limited_jerk = max (fwd_min_jerk fp) (min (fwd_max_jerk fp) fb_jerk);
          curr_acc = prev_acc + limited_jerk * dt
      in (curr_vel, curr_acc))"

text \<open>
  \<^verbatim>\<open>for (size_t i = start_index + 1; i < base_trajectory.points.size(); ++i)\<close>, every
  access through \<^verbatim>\<open>at\<close>.
\<close>

function forward_loop ::
  "TrajectoryPoint list \<Rightarrow> ForwardParam \<Rightarrow> nat \<Rightarrow> TrajectoryPoint list \<Rightarrow>
   error + TrajectoryPoint list" where
  "forward_loop base fp i out =
     (if i < length base then
        (case at_vec out (i - 1) of
           Inl e \<Rightarrow> Inl e
         | Inr prev \<Rightarrow>
        (case at_vec base (i - 1) of
           Inl e \<Rightarrow> Inl e
         | Inr b_prev \<Rightarrow>
        (case at_vec base i of
           Inl e \<Rightarrow> Inl e
         | Inr b_cur \<Rightarrow>
        (case at_vec out i of
           Inl e \<Rightarrow> Inl e
         | Inr cur \<Rightarrow>
             (let (curr_vel, curr_acc) =
                    forward_jerk_step fp (vel prev) (acc prev) (calcDistance2d b_prev b_cur)
                      (vel b_cur)
              in forward_loop base fp (Suc i)
                   (out[i := set_acc curr_acc (set_vel curr_vel cur)]))))))
      else Inr out)"
  by pat_completeness auto
termination
  by (relation "measure (\<lambda>(base, fp, i, out). length base - i)") auto

declare forward_loop.simps [simp del]

text \<open>
  The function always returns \<^verbatim>\<open>true\<close>; the model returns the output trajectory.
\<close>

definition applyForwardJerkFilter ::
  "Trajectory \<Rightarrow> nat \<Rightarrow> real \<Rightarrow> real \<Rightarrow> Param \<Rightarrow> Trajectory \<Rightarrow> error + Trajectory" where
  "applyForwardJerkFilter base_trajectory start_index initial_vel initial_acc params
     output_trajectory =
     (case at_vec (points output_trajectory) start_index of
        Inl e \<Rightarrow> Inl e
      | Inr p \<Rightarrow>
          (case forward_loop (points base_trajectory) (forward params) (start_index + 1)
                  ((points output_trajectory)
                     [start_index := set_acc initial_acc (set_vel initial_vel p)]) of
             Inl e \<Rightarrow> Inl e
           | Inr pts \<Rightarrow> Inr (output_trajectory\<lparr>points := pts\<rparr>)))"

text \<open>
  Notions for stating what the filter guarantees: the step that produced output point \<open>k\<close>,
  and the bounds a configuration must satisfy to be a pair of intervals around zero jerk.
\<close>

definition forward_point ::
  "ForwardParam \<Rightarrow> TrajectoryPoint list \<Rightarrow> TrajectoryPoint list \<Rightarrow> nat \<Rightarrow> real \<times> real" where
  "forward_point fp base out' k =
     forward_jerk_step fp (vel (out' ! (k - 1))) (acc (out' ! (k - 1)))
       (calcDistance2d (base ! (k - 1)) (base ! k)) (vel (base ! k))"

definition valid_forward_bounds :: "ForwardParam \<Rightarrow> bool" where
  "valid_forward_bounds fp \<longleftrightarrow>
     fwd_min_acc fp \<le> fwd_max_acc fp \<and> fwd_min_jerk fp \<le> 0 \<and> 0 \<le> fwd_max_jerk fp"

text \<open>The shipped configuration of the analytical smoother, for the worked instances.\<close>

definition default_param :: Param where
  "default_param =
     \<lparr>resample = \<lparr>num_resample = 1\<rparr>,
      latacc = \<lparr>enable_constant_velocity_while_turning = False,
                constant_velocity_dist_threshold = 2\<rparr>,
      forward = \<lparr>fwd_max_acc = 1, fwd_min_acc = - 1, fwd_max_jerk = 3 / 10,
                 fwd_min_jerk = - (3 / 10), fwd_kp = 3 / 10\<rparr>,
      backward = \<lparr>bwd_start_jerk = - (1 / 10), bwd_min_jerk_mild_stop = - (3 / 10),
                  bwd_min_jerk = - (3 / 2), bwd_min_acc_mild_stop = - 1,
                  bwd_min_acc = - (5 / 2), bwd_span_jerk = - (1 / 100)\<rparr>\<rparr>"

definition straight3 :: Trajectory where
  "straight3 = trajectory_of [point_at 0 0 1 0, point_at 1 0 2 0, point_at 2 0 2 0]"

section \<open>resampleTrajectory\<close>

text \<open>
  \<^verbatim>\<open>lerpByPose\<close> interpolates the position with \<^verbatim>\<open>tf2::lerp\<close> and the orientation with
  \<^verbatim>\<open>tf2::slerp\<close>. Both belong to the tf2 library, not to this repository; they are
  parameters of the model.
\<close>

record Tf2 =
  tf2_lerp :: "Vector3 \<Rightarrow> Vector3 \<Rightarrow> real \<Rightarrow> Vector3"
  tf2_slerp :: "Quaternion \<Rightarrow> Quaternion \<Rightarrow> real \<Rightarrow> Quaternion"

definition lerpByPose :: "Tf2 \<Rightarrow> Pose \<Rightarrow> Pose \<Rightarrow> real \<Rightarrow> Pose" where
  "lerpByPose tf p1 p2 t =
     (let tf_point = tf2_lerp tf (position p1) (position p2) t;
          tf_quaternion = tf2_slerp tf (orientation p1) (orientation p2) t
      in \<lparr>position = \<lparr>vec_x = vec_x tf_point, vec_y = vec_y tf_point, vec_z = vec_z tf_point\<rparr>,
          orientation = tf_quaternion\<rparr>)"

text \<open>The point pushed at parameter \<open>s\<close> between \<open>tp0\<close> and \<open>tp1\<close>.\<close>

definition resample_point :: "Tf2 \<Rightarrow> TrajectoryPoint \<Rightarrow> TrajectoryPoint \<Rightarrow> real \<Rightarrow> TrajectoryPoint" where
  "resample_point tf tp0 tp1 s =
     tp0\<lparr>pose := lerpByPose tf (pose tp0) (pose tp1) s,
         twist := (twist tp0)
           \<lparr>twist_linear := (twist_linear (twist tp0))\<lparr>vec_x := vec_x (twist_linear (twist tp0))\<rparr>,
            twist_angular := (twist_angular (twist tp0))
              \<lparr>vec_z := (1 - s) * vec_z (twist_angular (twist tp0))
                         + s * vec_z (twist_angular (twist tp1))\<rparr>\<rparr>,
         accel := (accel tp0)
           \<lparr>acc_linear := (acc_linear (accel tp0))\<lparr>vec_x := vec_x (acc_linear (accel tp0))\<rparr>,
            acc_angular := (acc_angular (accel tp0))
              \<lparr>vec_z := (1 - s) * vec_z (acc_angular (accel tp0))
                         + s * vec_z (acc_angular (accel tp1))\<rparr>\<rparr>\<rparr>"

text \<open>
  \<^verbatim>\<open>for (size_t j = 0; j < num_resample; ++j)\<close>, counted down by the number of passes
  left; \<open>s\<close> grows by \<open>ds\<close> each pass.
\<close>

primrec resample_inner ::
  "Tf2 \<Rightarrow> TrajectoryPoint \<Rightarrow> TrajectoryPoint \<Rightarrow> real \<Rightarrow> nat \<Rightarrow> real \<Rightarrow>
   TrajectoryPoint list \<Rightarrow> TrajectoryPoint list" where
  "resample_inner tf tp0 tp1 ds 0 s out = out"
| "resample_inner tf tp0 tp1 ds (Suc n) s out =
     resample_inner tf tp0 tp1 ds n (s + ds) (out @ [resample_point tf tp0 tp1 s])"

function resample_outer ::
  "Tf2 \<Rightarrow> nat \<Rightarrow> TrajectoryPoint list \<Rightarrow> nat \<Rightarrow> TrajectoryPoint list \<Rightarrow>
   error + TrajectoryPoint list" where
  "resample_outer tf n_resample pts i out =
     (if i < size_t_sub (length pts) 1 then
        (case at_vec pts i of
           Inl e \<Rightarrow> Inl e
         | Inr tp0 \<Rightarrow>
        (case at_vec pts (i + 1) of
           Inl e \<Rightarrow> Inl e
         | Inr tp1 \<Rightarrow>
             if \<bar>calcDistance2d tp0 tp1\<bar> < 1 / 1000
             then resample_outer tf n_resample pts (Suc i) (out @ [tp0])
             else resample_outer tf n_resample pts (Suc i)
                    (resample_inner tf tp0 tp1 (1 / real n_resample) n_resample 0 out)))
      else Inr out)"
  by pat_completeness auto
termination
  by (relation "measure (\<lambda>(tf, n, pts, i, out). size_t_sub (length pts) 1 - i)") auto

declare resample_outer.simps [simp del]

text \<open>
  The result is a \<^verbatim>\<open>boost::optional\<close>: empty for an empty input. The two unused
  arguments (\<^verbatim>\<open>v_current\<close>, \<^verbatim>\<open>closest_id\<close>) are left out.
\<close>

definition resampleTrajectory :: "Tf2 \<Rightarrow> Param \<Rightarrow> Trajectory \<Rightarrow> error + Trajectory option" where
  "resampleTrajectory tf smoother_param input =
     (if points input = [] then Inr None
      else
        (case resample_outer tf (num_resample (resample smoother_param)) (points input) 0 [] of
           Inl e \<Rightarrow> Inl e
         | Inr out \<Rightarrow> Inr (Some \<lparr>header = header input, points = out @ [last (points input)]\<rparr>)))"

text \<open>
  A tf2 instance for the worked instances: \<open>lerp\<close> as \<open>a + (b - a) * t\<close>, and a \<open>slerp\<close>
  that is exact for the equal orientations of the fixture points.
\<close>

definition tf2_fixture :: Tf2 where
  "tf2_fixture =
     \<lparr>tf2_lerp = (\<lambda>a b t. \<lparr>vec_x = vec_x a + (vec_x b - vec_x a) * t,
                             vec_y = vec_y a + (vec_y b - vec_y a) * t,
                             vec_z = vec_z a + (vec_z b - vec_z a) * t\<rparr>),
      tf2_slerp = (\<lambda>q1 q2 t. q1)\<rparr>"

definition cruise2 :: Trajectory where
  "cruise2 = trajectory_of [point_at 0 0 5 0, point_at 1 0 5 0]"

section \<open>The backward deceleration filter\<close>

text \<open>
  \<^verbatim>\<open>analytical_velocity_planning_utils\<close> is not part of the sources at hand. Its two
  functions that the smoother calls are parameters of the model, as functions of the
  values passed to them: \<^verbatim>\<open>calcStopDistWithJerkAndAccConstraints\<close> from
  \<open>(v0, a0, jerk_acc, jerk_dec, min_acc, target_vel)\<close> to its return value and the three
  results it writes (\<open>type\<close>, \<open>times\<close>, \<open>stop_dist\<close>; the caller resets them before the call),
  and \<^verbatim>\<open>calcStopVelocityWithConstantJerkAccLimit\<close> to its return value and the trajectory
  it leaves behind. The record carries the third parameter of the backward filter as
  well: the double arithmetic that steps its planning jerk.
\<close>

record PlanningUtils =
  calcStopDistWithJerkAndAccConstraints ::
    "real \<Rightarrow> real \<Rightarrow> real \<Rightarrow> real \<Rightarrow> real \<Rightarrow> real \<Rightarrow> bool \<times> int \<times> real list \<times> real"
  calcStopVelocityWithConstantJerkAccLimit ::
    "real \<Rightarrow> real \<Rightarrow> real \<Rightarrow> real \<Rightarrow> real \<Rightarrow> real \<Rightarrow> int \<Rightarrow> real list \<Rightarrow> nat \<Rightarrow> Trajectory \<Rightarrow>
     bool \<times> Trajectory"
  arith :: DoubleArith

definition ep_stop :: real where
  "ep_stop = 1 / 1000"

definition calcMinAcc :: "BackwardParam \<Rightarrow> real \<Rightarrow> real" where
  "calcMinAcc bp planning_jerk =
     (if planning_jerk < bwd_min_jerk_mild_stop bp then bwd_min_acc bp
      else bwd_min_acc_mild_stop bp)"

text \<open>
  \<^verbatim>\<open>calcEnoughDistForDecel\<close> returns its \<^verbatim>\<open>bool\<close> together with \<open>type\<close>, \<open>times\<close> and
  \<open>stop_dist\<close>. Its reference argument \<open>is_enough_dist\<close> is set to \<^verbatim>\<open>true\<close> exactly when the
  function returns \<^verbatim>\<open>true\<close>, and every caller passes it in as \<^verbatim>\<open>false\<close>, so the returned
  \<^verbatim>\<open>bool\<close> stands for both.
\<close>

definition calcEnoughDistForDecel ::
  "PlanningUtils \<Rightarrow> Trajectory \<Rightarrow> nat \<Rightarrow> real \<Rightarrow> real \<Rightarrow> Param \<Rightarrow> real list \<Rightarrow>
   error + (bool \<times> int \<times> real list \<times> real)" where
  "calcEnoughDistForDecel utils trajectory start_index decel_target_vel planning_jerk params
     dist_to_target =
     (case at_vec (points trajectory) start_index of
        Inl e \<Rightarrow> Inl e
      | Inr p \<Rightarrow>
          (let v0 = vel p;
               a0 = acc p;
               jerk_acc = \<bar>planning_jerk\<bar>;
               jerk_dec = planning_jerk;
               min_acc = calcMinAcc (backward params) planning_jerk;
               (ok, type_out, times_out, stop_dist) =
                  calcStopDistWithJerkAndAccConstraints utils v0 a0 jerk_acc jerk_dec min_acc
                    decel_target_vel
           in if ok then
                (case at_vec dist_to_target start_index of
                   Inl e \<Rightarrow> Inl e
                 | Inr allowed_dist \<Rightarrow>
                     if 0 \<le> stop_dist \<and> stop_dist \<le> allowed_dist
                     then Inr (True, type_out, times_out, stop_dist)
                     else Inr (False, type_out, times_out, stop_dist))
              else Inr (False, type_out, times_out, stop_dist)))"

text \<open>
  \<^verbatim>\<open>for (size_t i = start_index; i < decel_target_index; ++i)\<close>: the first index at or
  after the candidate whose velocity is not below the target; the candidate itself when
  there is none.
\<close>

function advance_start_index ::
  "TrajectoryPoint list \<Rightarrow> real \<Rightarrow> nat \<Rightarrow> nat \<Rightarrow> nat \<Rightarrow> error + nat" where
  "advance_start_index pts decel_target_vel decel_target_index start_index i =
     (if i < decel_target_index then
        (case at_vec pts i of
           Inl e \<Rightarrow> Inl e
         | Inr p \<Rightarrow>
             if vel p \<ge> decel_target_vel then Inr i
             else advance_start_index pts decel_target_vel decel_target_index start_index (Suc i))
      else Inr start_index)"
  by pat_completeness auto
termination
  by (relation "measure (\<lambda>(pts, tv, target, s, i). target - i)") auto

declare advance_start_index.simps [simp del]

text \<open>
  \<^verbatim>\<open>for (size_t i = decel_target_index; i > start_index; --i)\<close>: the distance from each
  index to the target, accumulated backwards.
\<close>

function dist_to_target_loop ::
  "TrajectoryPoint list \<Rightarrow> nat \<Rightarrow> nat \<Rightarrow> real \<Rightarrow> real list \<Rightarrow> error + real list" where
  "dist_to_target_loop pts start_index i dist_sum dist_to_target =
     (if i > start_index then
        (case at_vec pts (i - 1) of
           Inl e \<Rightarrow> Inl e
         | Inr p_prev \<Rightarrow>
        (case at_vec pts i of
           Inl e \<Rightarrow> Inl e
         | Inr p \<Rightarrow>
             (if i - 1 < length dist_to_target then
                dist_to_target_loop pts start_index (i - 1) (dist_sum + calcDistance2d p_prev p)
                  (dist_to_target[i - 1 := dist_sum + calcDistance2d p_prev p])
              else Inl OutOfRange)))
      else Inr dist_to_target)"
  by pat_completeness auto
termination
  by (relation "measure (\<lambda>(pts, s, i, d, dtt). i)") auto

declare dist_to_target_loop.simps [simp del]

text \<open>
  \<^verbatim>\<open>for (planning_jerk = start_jerk; planning_jerk > min_jerk - ep; planning_jerk += span_jerk)\<close>.
  Nothing in the loop forces it to end (a non-negative \<open>span_jerk\<close> never reaches the
  bound, nor does a negative one that the double sum absorbs), so it is a partial
  function: \<open>None\<close> is a loop that never leaves. The sum is the double addition. On leaving, the
  result is the profile found (\<open>planning_jerk\<close>, \<open>type\<close>, \<open>times\<close>) when \<open>is_enough_dist\<close> is
  set, and nothing otherwise; \<open>type\<close> and \<open>times\<close> are read only when it is set.
\<close>

partial_function (option) jerk_scan ::
  "PlanningUtils \<Rightarrow> Trajectory \<Rightarrow> nat \<Rightarrow> real \<Rightarrow> Param \<Rightarrow> real list \<Rightarrow> real \<Rightarrow>
   (error + (real \<times> int \<times> real list) option) option" where
  "jerk_scan utils trajectory start_index decel_target_vel params dist_to_target planning_jerk =
     (if planning_jerk > bwd_min_jerk (backward params) - ep_stop then
        (case calcEnoughDistForDecel utils trajectory start_index decel_target_vel planning_jerk
                params dist_to_target of
           Inl e \<Rightarrow> Some (Inl e)
         | Inr r \<Rightarrow>
             if fst r then Some (Inr (Some (planning_jerk, fst (snd r), fst (snd (snd r)))))
             else jerk_scan utils trajectory start_index decel_target_vel params dist_to_target
                    (double_add (arith utils) planning_jerk (bwd_span_jerk (backward params))))
      else Some (Inr None))"

text \<open>
  The control of that loop alone: the planning jerk leaves the range
  \<open>planning_jerk > min_jerk - ep\<close> within \<open>fuel\<close> steps of the double addition. This is what
  it takes for the scan to end when no planning jerk gives a profile.
\<close>

fun planning_jerk_leaves ::
  "(real \<Rightarrow> real \<Rightarrow> real) \<Rightarrow> real \<Rightarrow> real \<Rightarrow> nat \<Rightarrow> real \<Rightarrow> bool" where
  "planning_jerk_leaves add span_jerk bound 0 planning_jerk = (\<not> planning_jerk > bound)"
| "planning_jerk_leaves add span_jerk bound (Suc fuel) planning_jerk =
     (if planning_jerk > bound
      then planning_jerk_leaves add span_jerk bound fuel (add planning_jerk span_jerk)
      else True)"

definition jerk_scan_ends :: "PlanningUtils \<Rightarrow> Param \<Rightarrow> nat \<Rightarrow> bool" where
  "jerk_scan_ends utils params fuel \<longleftrightarrow>
     planning_jerk_leaves (double_add (arith utils)) (bwd_span_jerk (backward params))
       (bwd_min_jerk (backward params) - ep_stop) fuel (bwd_start_jerk (backward params))"

text \<open>
  The values \<^verbatim>\<open>applyBackwardDecelFilter\<close> collects over its candidate start indices.
  \<open>output_type\<close> is uninitialised in the source until a candidate is accepted and is not
  read before.
\<close>

record BackwardOutput =
  output_planning_jerk :: real
  output_start_index :: nat
  output_dist_to_target :: "real list"
  output_type :: int
  output_times :: "real list"

definition BackwardOutput_init :: BackwardOutput where
  "BackwardOutput_init =
     \<lparr>output_planning_jerk = - 100, output_start_index = 0, output_dist_to_target = [],
      output_type = 0, output_times = []\<rparr>"

text \<open>The body of \<^verbatim>\<open>for (size_t start_index : start_indices)\<close> for one candidate.\<close>

definition scan_start_index ::
  "PlanningUtils \<Rightarrow> Param \<Rightarrow> Trajectory \<Rightarrow> nat \<Rightarrow> real \<Rightarrow> BackwardOutput \<Rightarrow> nat \<Rightarrow>
   (error + BackwardOutput) option" where
  "scan_start_index utils params output_trajectory decel_target_index decel_target_vel outp
     start_index0 =
     (let pts = points output_trajectory;
          dist_to_target0 = replicate (length pts) 0
      in if decel_target_index < length dist_to_target0 then
           (case advance_start_index pts decel_target_vel decel_target_index start_index0
                   start_index0 of
              Inl e \<Rightarrow> Some (Inl e)
            | Inr start_index \<Rightarrow>
           (case dist_to_target_loop pts start_index decel_target_index 0
                   (dist_to_target0[decel_target_index := 0]) of
              Inl e \<Rightarrow> Some (Inl e)
            | Inr dist_to_target \<Rightarrow>
           (case jerk_scan utils output_trajectory start_index decel_target_vel params
                   dist_to_target (bwd_start_jerk (backward params)) of
              None \<Rightarrow> None
            | Some (Inl e) \<Rightarrow> Some (Inl e)
            | Some (Inr None) \<Rightarrow> Some (Inr outp)
            | Some (Inr (Some (planning_jerk, type_out, times_out))) \<Rightarrow>
                if planning_jerk \<ge> output_planning_jerk outp then
                  Some (Inr \<lparr>output_planning_jerk = planning_jerk,
                             output_start_index = start_index,
                             output_dist_to_target = dist_to_target,
                             output_type = type_out,
                             output_times = times_out\<rparr>)
                else Some (Inr outp))))
         else Some (Inl OutOfRange))"

fun scan_start_indices ::
  "PlanningUtils \<Rightarrow> Param \<Rightarrow> Trajectory \<Rightarrow> nat \<Rightarrow> real \<Rightarrow> nat list \<Rightarrow> BackwardOutput \<Rightarrow>
   (error + BackwardOutput) option" where
  "scan_start_indices utils params tr target tv [] outp = Some (Inr outp)"
| "scan_start_indices utils params tr target tv (s # ss) outp =
     (case scan_start_index utils params tr target tv outp s of
        None \<Rightarrow> None
      | Some (Inl e) \<Rightarrow> Some (Inl e)
      | Some (Inr outp') \<Rightarrow> scan_start_indices utils params tr target tv ss outp')"

text \<open>
  \<^verbatim>\<open>for (size_t i = decel_target_index - 1; i >= output_start_index; --i)\<close>. The index is
  unsigned: decrementing \<open>i = 0\<close> wraps to the largest \<^verbatim>\<open>size_t\<close>, the condition still
  holds, and the next \<^verbatim>\<open>trajectory.points.at(i)\<close> throws.
\<close>

function search_decel_start ::
  "PlanningUtils \<Rightarrow> Trajectory \<Rightarrow> real \<Rightarrow> real \<Rightarrow> Param \<Rightarrow> real list \<Rightarrow> nat \<Rightarrow> nat \<Rightarrow>
   error + (nat \<times> int \<times> real list)" where
  "search_decel_start utils tr decel_target_vel planning_jerk params dist_to_target
     start_index i =
     (case calcEnoughDistForDecel utils tr i decel_target_vel planning_jerk params
             dist_to_target of
        Inl e \<Rightarrow> Inl e
      | Inr r \<Rightarrow>
          if fst r then Inr (i, fst (snd r), fst (snd (snd r)))
          else if i = 0 then Inl OutOfRange
          else if i - 1 \<ge> start_index then
            search_decel_start utils tr decel_target_vel planning_jerk params dist_to_target
              start_index (i - 1)
          else Inr (start_index, fst (snd r), fst (snd (snd r))))"
  by pat_completeness auto
termination
  by (relation "measure (\<lambda>(u, tr, tv, pj, ps, dtt, s, i). i)") auto

declare search_decel_start.simps [simp del]

definition applyDecelVelocityFilter ::
  "PlanningUtils \<Rightarrow> nat \<Rightarrow> real \<Rightarrow> real \<Rightarrow> Param \<Rightarrow> int \<Rightarrow> real list \<Rightarrow> Trajectory \<Rightarrow>
   error + (bool \<times> Trajectory)" where
  "applyDecelVelocityFilter utils decel_start_index decel_target_vel planning_jerk params
     type_in times_in output_trajectory =
     (case at_vec (points output_trajectory) decel_start_index of
        Inl e \<Rightarrow> Inl e
      | Inr p \<Rightarrow>
          Inr (calcStopVelocityWithConstantJerkAccLimit utils (vel p) (acc p) \<bar>planning_jerk\<bar>
                 planning_jerk (calcMinAcc (backward params) planning_jerk) decel_target_vel
                 type_in times_in decel_start_index output_trajectory))"

definition applyBackwardDecelFilter ::
  "PlanningUtils \<Rightarrow> nat list \<Rightarrow> nat \<Rightarrow> real \<Rightarrow> Param \<Rightarrow> Trajectory \<Rightarrow>
   (error + (bool \<times> Trajectory)) option" where
  "applyBackwardDecelFilter utils start_indices decel_target_index decel_target_vel params
     output_trajectory =
     (case scan_start_indices utils params output_trajectory decel_target_index
             decel_target_vel start_indices BackwardOutput_init of
        None \<Rightarrow> None
      | Some (Inl e) \<Rightarrow> Some (Inl e)
      | Some (Inr outp) \<Rightarrow>
          Some
           (if output_planning_jerk outp = - 100 then Inr (False, output_trajectory)
            else
              (case (if output_planning_jerk outp = bwd_start_jerk (backward params) then
                       (if decel_target_index = 0 then Inl OutOfRange
                        else if decel_target_index - 1 \<ge> output_start_index outp then
                          search_decel_start utils output_trajectory decel_target_vel
                            (output_planning_jerk outp) params (output_dist_to_target outp)
                            (output_start_index outp) (decel_target_index - 1)
                        else Inr (output_start_index outp, output_type outp, output_times outp))
                     else Inr (output_start_index outp, output_type outp, output_times outp)) of
                 Inl e \<Rightarrow> Inl e
               | Inr (decel_start_index, type_out, times_out) \<Rightarrow>
                   applyDecelVelocityFilter utils decel_start_index decel_target_vel
                     (output_planning_jerk outp) params type_out times_out output_trajectory)))"

section \<open>apply\<close>

text \<open>
  \<^verbatim>\<open>for (int j = i; j >= 0; --j)\<close>: the start of the backward pass is the trajectory start,
  or the nearest earlier target that is slower than its successor.
\<close>

fun bwd_start_search ::
  "(nat \<times> real) list \<Rightarrow> Trajectory \<Rightarrow> real \<Rightarrow> real \<Rightarrow> nat \<Rightarrow> error + (nat \<times> real \<times> real)" where
  "bwd_start_search decel_target_indices filtered initial_vel initial_acc 0 =
     Inr (0, initial_vel, initial_acc)"
| "bwd_start_search decel_target_indices filtered initial_vel initial_acc (Suc j) =
     (case at_vec decel_target_indices j of
        Inl e \<Rightarrow> Inl e
      | Inr t_prev \<Rightarrow>
     (case at_vec decel_target_indices (Suc j) of
        Inl e \<Rightarrow> Inl e
      | Inr t_cur \<Rightarrow>
          if snd t_prev < snd t_cur then
            (case at_vec (points filtered) (fst t_prev) of
               Inl e \<Rightarrow> Inl e
             | Inr p \<Rightarrow> Inr (fst t_prev, vel p, acc p))
          else bwd_start_search decel_target_indices filtered initial_vel initial_acc j))"

text \<open>
  One pass of the loop over the deceleration targets. It either ends \<^verbatim>\<open>apply\<close> with a
  \<^verbatim>\<open>true\<close> return and the output (the velocity cap at a stop target), or hands the
  reference and the filtered trajectory to the next pass.
\<close>

datatype target_step = Finish Trajectory | Continue Trajectory Trajectory

definition fwd_start ::
  "(nat \<times> real) list \<Rightarrow> Trajectory \<Rightarrow> real \<Rightarrow> real \<Rightarrow> nat \<Rightarrow> error + (nat \<times> real \<times> real)" where
  "fwd_start decel_target_indices filtered initial_vel initial_acc i =
     (if i = 0 then Inr (0, initial_vel, initial_acc)
      else
        (case at_vec decel_target_indices (i - 1) of
           Inl e \<Rightarrow> Inl e
         | Inr t \<Rightarrow>
             (case at_vec (points filtered) (fst t) of
                Inl e \<Rightarrow> Inl e
              | Inr p \<Rightarrow> Inr (fst t, vel p, acc p))))"

definition decel_fallback ::
  "Param \<Rightarrow> nat \<Rightarrow> real \<Rightarrow> real \<Rightarrow> nat \<Rightarrow> real \<Rightarrow> Trajectory \<Rightarrow> Trajectory \<Rightarrow>
   error + target_step" where
  "decel_fallback params bwd_start_index bwd_start_vel bwd_start_acc decel_target_index
     decel_target_vel reference_trajectory filtered_trajectory =
     (if \<bar>decel_target_vel\<bar> < ep_stop then
        (case applyMaxVelocity 0 bwd_start_index
                (size_t_sub (length (points filtered_trajectory)) 1) filtered_trajectory of
           Inl e \<Rightarrow> Inl e
         | Inr r \<Rightarrow> Inr (Finish (snd r)))
      else
        (case applyMaxVelocity decel_target_vel bwd_start_index decel_target_index
                reference_trajectory of
           Inl e \<Rightarrow> Inl e
         | Inr r \<Rightarrow>
             (case applyForwardJerkFilter (snd r) bwd_start_index bwd_start_vel bwd_start_acc
                     params filtered_trajectory of
                Inl e \<Rightarrow> Inl e
              | Inr filtered' \<Rightarrow> Inr (Continue (snd r) filtered'))))"

definition apply_target_step ::
  "PlanningUtils \<Rightarrow> Param \<Rightarrow> real \<Rightarrow> real \<Rightarrow> (nat \<times> real) list \<Rightarrow> nat \<Rightarrow> Trajectory \<Rightarrow>
   Trajectory \<Rightarrow> (error + target_step) option" where
  "apply_target_step utils params initial_vel initial_acc decel_target_indices i
     reference_trajectory filtered_trajectory =
     (case fwd_start decel_target_indices filtered_trajectory initial_vel initial_acc i of
        Inl e \<Rightarrow> Some (Inl e)
      | Inr (fwd_start_index, fwd_start_vel, fwd_start_acc) \<Rightarrow>
     (case applyForwardJerkFilter reference_trajectory fwd_start_index fwd_start_vel
             fwd_start_acc params filtered_trajectory of
        Inl e \<Rightarrow> Some (Inl e)
      | Inr filtered1 \<Rightarrow>
     (case bwd_start_search decel_target_indices filtered1 initial_vel initial_acc i of
        Inl e \<Rightarrow> Some (Inl e)
      | Inr (bwd_start_index, bwd_start_vel, bwd_start_acc) \<Rightarrow>
     (case at_vec decel_target_indices i of
        Inl e \<Rightarrow> Some (Inl e)
      | Inr (decel_target_index, decel_target_vel) \<Rightarrow>
     (case applyBackwardDecelFilter utils
             (if bwd_start_index \<noteq> fwd_start_index
              then [bwd_start_index, fwd_start_index] else [bwd_start_index])
             decel_target_index decel_target_vel params filtered1 of
        None \<Rightarrow> None
      | Some (Inl e) \<Rightarrow> Some (Inl e)
      | Some (Inr (ok, filtered2)) \<Rightarrow>
          if ok then Some (Inr (Continue reference_trajectory filtered2))
          else Some (decel_fallback params bwd_start_index bwd_start_vel bwd_start_acc
                       decel_target_index decel_target_vel reference_trajectory filtered2))))))"

text \<open>The last forward pass, after the loop.\<close>

definition apply_final ::
  "Param \<Rightarrow> real \<Rightarrow> real \<Rightarrow> (nat \<times> real) list \<Rightarrow> Trajectory \<Rightarrow> Trajectory \<Rightarrow>
   error + (bool \<times> Trajectory)" where
  "apply_final params initial_vel initial_acc decel_target_indices reference_trajectory
     filtered_trajectory =
     (case (if decel_target_indices = [] then Inr (0, initial_vel, initial_acc)
            else
              (case at_vec (points filtered_trajectory) (fst (last decel_target_indices)) of
                 Inl e \<Rightarrow> Inl e
               | Inr p \<Rightarrow> Inr (fst (last decel_target_indices), vel p, acc p))) of
        Inl e \<Rightarrow> Inl e
      | Inr (start_index, start_vel, start_acc) \<Rightarrow>
          (case applyForwardJerkFilter reference_trajectory start_index start_vel start_acc
                  params filtered_trajectory of
             Inl e \<Rightarrow> Inl e
           | Inr out \<Rightarrow> Inr (True, out)))"

function apply_targets ::
  "PlanningUtils \<Rightarrow> Param \<Rightarrow> real \<Rightarrow> real \<Rightarrow> (nat \<times> real) list \<Rightarrow> nat \<Rightarrow> Trajectory \<Rightarrow>
   Trajectory \<Rightarrow> (error + (bool \<times> Trajectory)) option" where
  "apply_targets utils params initial_vel initial_acc decel_target_indices i
     reference_trajectory filtered_trajectory =
     (if i < length decel_target_indices then
        (case apply_target_step utils params initial_vel initial_acc decel_target_indices i
                reference_trajectory filtered_trajectory of
           None \<Rightarrow> None
         | Some (Inl e) \<Rightarrow> Some (Inl e)
         | Some (Inr (Finish out)) \<Rightarrow> Some (Inr (True, out))
         | Some (Inr (Continue reference' filtered')) \<Rightarrow>
             apply_targets utils params initial_vel initial_acc decel_target_indices (Suc i)
               reference' filtered')
      else Some (apply_final params initial_vel initial_acc decel_target_indices
                   reference_trajectory filtered_trajectory))"
  by pat_completeness auto
termination
  by (relation "measure (\<lambda>(u, ps, iv, ia, ts, i, r, f). length ts - i)") auto

declare apply_targets.simps [simp del]

text \<open>
  \<^verbatim>\<open>AnalyticalJerkConstrainedSmoother::apply\<close>. The model takes the caller's \<open>output\<close> and
  returns the \<^verbatim>\<open>bool\<close> with the \<open>output\<close> the call leaves behind; \<open>None\<close> is a call that
  never returns, \<open>Inl\<close> an exception that leaves it. (\<^verbatim>\<open>debug_trajectories\<close> is unused.)
\<close>

definition apply_smoother ::
  "PlanningUtils \<Rightarrow> Param \<Rightarrow> real \<Rightarrow> real \<Rightarrow> Trajectory \<Rightarrow> Trajectory \<Rightarrow>
   (error + (bool \<times> Trajectory)) option" where
  "apply_smoother utils smoother_param initial_vel initial_acc input output =
     (if points input = [] then Some (Inr (False, output))
      else if length (points input) = 1 then
        Some (Inr (True,
          input\<lparr>points :=
            (points input)[0 := set_acc initial_acc (set_vel initial_vel (hd (points input)))]\<rparr>))
      else
        (case searchDecelTargetIndices input 0 [] of
           Inl e \<Rightarrow> Some (Inl e)
         | Inr decel_target_indices \<Rightarrow>
             apply_targets utils smoother_param initial_vel initial_acc decel_target_indices 0
               input input))"

text \<open>
  A planning-utilities instance for the worked instances: one that finds no stopping
  profile (the stop distance computation reports failure, the profile writer leaves the
  trajectory as it is and reports failure). The worked instances use it where no profile
  can exist: the stop is nearer than the distance \<open>v\<^sup>2 / (2 * \<bar>min_acc\<bar>)\<close> of a full brake.
\<close>

definition no_profile_utils :: PlanningUtils where
  "no_profile_utils =
     \<lparr>calcStopDistWithJerkAndAccConstraints = (\<lambda>v0 a0 jerk_acc jerk_dec min_acc target_vel.
         (False, 0, [], 0)),
      calcStopVelocityWithConstantJerkAccLimit =
        (\<lambda>v0 a0 jerk_acc jerk_dec min_acc target_vel type_in times_in start_index tr.
           (False, tr)),
      arith = exact_arith\<rparr>"

text \<open>
  What is known of the collected values once a candidate has been accepted: the start
  index lies before the target, the distances cover the trajectory, and the accepted
  jerk passed the distance check at that start index.
\<close>

definition backward_output_ok ::
  "PlanningUtils \<Rightarrow> Param \<Rightarrow> Trajectory \<Rightarrow> nat \<Rightarrow> real \<Rightarrow> BackwardOutput \<Rightarrow> bool" where
  "backward_output_ok utils params tr target tv outp \<longleftrightarrow>
     (output_planning_jerk outp \<noteq> - 100 \<longrightarrow>
        output_start_index outp < target \<and>
        length (output_dist_to_target outp) = length (points tr) \<and>
        (\<exists>sd. calcEnoughDistForDecel utils tr (output_start_index outp) tv
                 (output_planning_jerk outp) params (output_dist_to_target outp) =
               Inr (True, output_type outp, output_times outp, sd)))"

text \<open>The profile writer keeps the number of points of the trajectory it is given.\<close>

definition keeps_size :: "PlanningUtils \<Rightarrow> bool" where
  "keeps_size utils \<longleftrightarrow>
     (\<forall>v0 a0 jerk_acc jerk_dec min_acc target_vel type_in times_in start_index tr.
        length (points (snd (calcStopVelocityWithConstantJerkAccLimit utils v0 a0 jerk_acc
                               jerk_dec min_acc target_vel type_in times_in start_index tr))) =
        length (points tr))"

text \<open>
  The deceleration targets \<^verbatim>\<open>apply\<close> works with: indices inside a trajectory of \<open>n\<close>
  points, never the first point, in strictly increasing order.
\<close>

definition targets_ok :: "nat \<Rightarrow> (nat \<times> real) list \<Rightarrow> bool" where
  "targets_ok n ts \<longleftrightarrow>
     sorted_wrt (<) (map fst ts) \<and> (\<forall>t \<in> set ts. 1 \<le> fst t \<and> fst t < n)"

text \<open>More fixtures: a two-point trajectory that slows from 5 m/s to a stop, and the
  shipped configuration with the jerk scan's step set to zero.\<close>

definition slow_down2 :: Trajectory where
  "slow_down2 = trajectory_of [point_at 0 0 5 0, point_at 1 0 0 0]"

definition zero_span_param :: Param where
  "zero_span_param = default_param\<lparr>backward := (backward default_param)\<lparr>bwd_span_jerk := 0\<rparr>\<rparr>"

text \<open>A stop distance computation that succeeds for no input.\<close>

definition never_enough :: "PlanningUtils \<Rightarrow> bool" where
  "never_enough utils \<longleftrightarrow>
     (\<forall>v0 a0 jerk_acc jerk_dec min_acc target_vel.
        fst (calcStopDistWithJerkAndAccConstraints utils v0 a0 jerk_acc jerk_dec min_acc
               target_vel) = False)"




section \<open>applyLateralAccelerationFilter\<close>

text \<open>
  \<^verbatim>\<open>trajectory_utils\<close> is not part of the sources at hand. Its three functions that the
  filter calls are parameters of the model: the arc length array of a trajectory, the
  linear interpolation of a trajectory at given arc lengths (a \<^verbatim>\<open>boost::optional\<close>), and
  the curvature estimate from three points \<open>idx_dist\<close> apart (a \<^verbatim>\<open>boost::optional\<close> too).
\<close>

record TrajectoryUtils =
  calcArclengthArray :: "Trajectory \<Rightarrow> real list"
  applyLinearInterpolation :: "real list \<Rightarrow> Trajectory \<Rightarrow> real list \<Rightarrow> Trajectory option"
  calcTrajectoryCurvatureFrom3Points :: "Trajectory \<Rightarrow> nat \<Rightarrow> real list option"

definition points_interval :: real where
  "points_interval = 1 / 10"

definition curvature_calc_dist :: real where
  "curvature_calc_dist = 5"

text \<open>
  \<^verbatim>\<open>for (double s = 0; s < in_arclength.back(); s += points_interval)\<close>. The sum is the
  double addition, and nothing forces the loop to end (an arc length beyond the precision
  of the sum absorbs the step): \<open>None\<close> is a loop that never leaves.
\<close>

partial_function (option) arclength_steps ::
  "DoubleArith \<Rightarrow> real \<Rightarrow> real \<Rightarrow> real list \<Rightarrow> real list option" where
  "arclength_steps da arc_end s out_arclength =
     (if s < arc_end
      then arclength_steps da arc_end (double_add da s points_interval) (out_arclength @ [s])
      else Some out_arclength)"

text \<open>
  \<^verbatim>\<open>static_cast<size_t>(std::round(distance / points_interval))\<close>, for the non-negative
  distances the cast is defined for. The quotient is the double division.
  \<^verbatim>\<open>static_cast<int>(curvature_calc_dist / points_interval)\<close> likewise.
\<close>

definition decel_index :: "DoubleArith \<Rightarrow> real \<Rightarrow> nat" where
  "decel_index da distance = nat (round (double_div da distance points_interval))"

definition idx_dist :: "DoubleArith \<Rightarrow> nat" where
  "idx_dist da = nat (max (\<lfloor>double_div da curvature_calc_dist points_interval\<rfloor>) 1)"

text \<open>
  \<^verbatim>\<open>for (size_t j = start; j < end; ++j) curvature = std::max(curvature, std::fabs(curvature_v->at(j)))\<close>.
\<close>

function window_curvature :: "real list \<Rightarrow> nat \<Rightarrow> nat \<Rightarrow> real \<Rightarrow> error + real" where
  "window_curvature curvature_v j end_j curvature =
     (if j < end_j then
        (case at_vec curvature_v j of
           Inl e \<Rightarrow> Inl e
         | Inr c \<Rightarrow> window_curvature curvature_v (Suc j) end_j (max curvature \<bar>c\<bar>))
      else Inr curvature)"
  by pat_completeness auto
termination
  by (relation "measure (\<lambda>(cv, j, e, c). e - j)") auto

declare window_curvature.simps [simp del]

definition v_curvature_max_of :: "BaseParam \<Rightarrow> real \<Rightarrow> real" where
  "v_curvature_max_of base_param curvature =
     max (sqrt (\<bar>max_lateral_accel base_param\<bar> / max curvature (1 / 100000)))
         (min_curve_velocity base_param)"

text \<open>The loop that decreases the speed according to the lateral acceleration.\<close>

function latacc_cap_loop ::
  "DoubleArith \<Rightarrow> BaseParam \<Rightarrow> real list \<Rightarrow> nat \<Rightarrow> TrajectoryPoint list \<Rightarrow> nat list \<Rightarrow>
   error + (TrajectoryPoint list \<times> nat list)" where
  "latacc_cap_loop da base_param curvature_v i pts filtered_points =
     (if i < length pts then
        (let before_decel_index = decel_index da (decel_distance_before_curve base_param);
             after_decel_index = decel_index da (decel_distance_after_curve base_param);
             start = (if i > before_decel_index then i - before_decel_index else 0);
             end_j = min (length pts) (i + after_decel_index)
         in case window_curvature curvature_v start end_j 0 of
              Inl e \<Rightarrow> Inl e
            | Inr curvature \<Rightarrow>
           (case at_vec pts i of
              Inl e \<Rightarrow> Inl e
            | Inr p \<Rightarrow>
                if vel p > v_curvature_max_of base_param curvature then
                  latacc_cap_loop da base_param curvature_v (Suc i)
                    (pts[i := set_vel (v_curvature_max_of base_param curvature) p])
                    (filtered_points @ [i])
                else latacc_cap_loop da base_param curvature_v (Suc i) pts filtered_points))
      else Inr (pts, filtered_points))"
  by pat_completeness auto
termination
  by (relation "measure (\<lambda>(da, bp, cv, i, pts, fps). length pts - i)") auto

declare latacc_cap_loop.simps [simp del]

text \<open>
  The loop over the capped indices that collects the ranges
  \<open>(start_index, end_index, min_latacc_velocity)\<close>. Its state is the open range;
  \<open>min_latacc_velocity\<close> is uninitialised in the source until \<open>is_updated\<close> is set.
\<close>

record RangeState =
  rs_start_index :: nat
  rs_end_index :: nat
  rs_is_updated :: bool
  rs_min_latacc_velocity :: real
  rs_ranges :: "(nat \<times> nat \<times> real) list"

definition RangeState_init :: RangeState where
  "RangeState_init =
     \<lparr>rs_start_index = 0, rs_end_index = 0, rs_is_updated = False,
      rs_min_latacc_velocity = 0, rs_ranges = []\<rparr>"

fun latacc_ranges_loop ::
  "TrajectoryPoint list \<Rightarrow> real \<Rightarrow> nat list \<Rightarrow> RangeState \<Rightarrow> error + RangeState" where
  "latacc_ranges_loop pts dist_threshold [] st = Inr st"
| "latacc_ranges_loop pts dist_threshold (index # rest) st =
     (case at_vec pts index of
        Inl e \<Rightarrow> Inl e
      | Inr p \<Rightarrow>
          if rs_is_updated st = False then
            latacc_ranges_loop pts dist_threshold rest
              (st\<lparr>rs_start_index := index, rs_end_index := index,
                  rs_min_latacc_velocity := vel p, rs_is_updated := True\<rparr>)
          else
            (case at_vec pts (rs_end_index st) of
               Inl e \<Rightarrow> Inl e
             | Inr p_end \<Rightarrow>
                 if calcDistance2d p_end p < dist_threshold then
                   latacc_ranges_loop pts dist_threshold rest
                     (st\<lparr>rs_end_index := index,
                         rs_min_latacc_velocity := min (vel p) (rs_min_latacc_velocity st)\<rparr>)
                 else
                   latacc_ranges_loop pts dist_threshold rest
                     (st\<lparr>rs_ranges := rs_ranges st @
                           [(rs_start_index st, rs_end_index st, rs_min_latacc_velocity st)],
                         rs_start_index := index, rs_end_index := index,
                         rs_min_latacc_velocity := vel p\<rparr>)))"

definition latacc_filtered_ranges ::
  "TrajectoryPoint list \<Rightarrow> real \<Rightarrow> nat list \<Rightarrow> error + (nat \<times> nat \<times> real) list" where
  "latacc_filtered_ranges pts dist_threshold filtered_points =
     (case latacc_ranges_loop pts dist_threshold filtered_points RangeState_init of
        Inl e \<Rightarrow> Inl e
      | Inr st \<Rightarrow>
          Inr (if rs_is_updated st
               then rs_ranges st @
                      [(rs_start_index st, rs_end_index st, rs_min_latacc_velocity st)]
               else rs_ranges st))"

text \<open>
  The last loop: the first range that contains \<open>i\<close> gives point \<open>i\<close> its velocity, when
  \<^verbatim>\<open>enable_constant_velocity_while_turning\<close> is set.
\<close>

fun first_range_velocity :: "bool \<Rightarrow> nat \<Rightarrow> (nat \<times> nat \<times> real) list \<Rightarrow> real option" where
  "first_range_velocity enable i [] = None"
| "first_range_velocity enable i ((start_index, end_index, min_latacc_velocity) # rest) =
     (if start_index \<le> i \<and> i \<le> end_index \<and> enable then Some min_latacc_velocity
      else first_range_velocity enable i rest)"

function latacc_plateau_loop ::
  "bool \<Rightarrow> (nat \<times> nat \<times> real) list \<Rightarrow> nat \<Rightarrow> TrajectoryPoint list \<Rightarrow>
   error + TrajectoryPoint list" where
  "latacc_plateau_loop enable ranges i pts =
     (if i < length pts then
        (case first_range_velocity enable i ranges of
           None \<Rightarrow> latacc_plateau_loop enable ranges (Suc i) pts
         | Some v \<Rightarrow>
             (case at_vec pts i of
                Inl e \<Rightarrow> Inl e
              | Inr p \<Rightarrow> latacc_plateau_loop enable ranges (Suc i) (pts[i := set_vel v p])))
      else Inr pts)"
  by pat_completeness auto
termination
  by (relation "measure (\<lambda>(en, rs, i, pts). length pts - i)") auto

declare latacc_plateau_loop.simps [simp del]

text \<open>
  \<^verbatim>\<open>output->points.back().twist = input.points.back().twist;  // keep the final speed.\<close>
\<close>

definition keep_final_speed :: "Trajectory \<Rightarrow> Trajectory \<Rightarrow> Trajectory" where
  "keep_final_speed input output0 =
     output0\<lparr>points :=
       (points output0)[length (points output0) - 1 :=
          (last (points output0))\<lparr>twist := twist (last (points input))\<rparr>]\<rparr>"

text \<open>
  \<^verbatim>\<open>applyLateralAccelerationFilter\<close>: \<open>None\<close> is a call that never returns (the sampling
  loop), \<open>Inl\<close> an exception, \<open>Inr\<close> the \<^verbatim>\<open>boost::optional\<close> it returns.
\<close>

definition applyLateralAccelerationFilter ::
  "DoubleArith \<Rightarrow> TrajectoryUtils \<Rightarrow> BaseParam \<Rightarrow> Param \<Rightarrow> Trajectory \<Rightarrow>
   (error + Trajectory option) option" where
  "applyLateralAccelerationFilter da tu base_param smoother_param input =
     (if points input = [] then Some (Inr None)
      else if length (points input) < 3 then Some (Inr (Some input))
      else
        (let in_arclength = calcArclengthArray tu input
         in if in_arclength = [] then Some (Inl EmptyBack)
            else
              (case arclength_steps da (last in_arclength) 0 [] of
                 None \<Rightarrow> None
               | Some out_arclength \<Rightarrow>
              Some
              (case applyLinearInterpolation tu in_arclength input out_arclength of
                 None \<Rightarrow> Inr None
               | Some output0 \<Rightarrow>
                   if points output0 = [] then Inl EmptyBack
                   else
                     (let output1 = keep_final_speed input output0
                      in case calcTrajectoryCurvatureFrom3Points tu output1 (idx_dist da) of
                           None \<Rightarrow> Inr (Some input)
                         | Some curvature_v \<Rightarrow>
                        (case latacc_cap_loop da base_param curvature_v 0 (points output1) [] of
                           Inl e \<Rightarrow> Inl e
                         | Inr (pts2, filtered_points) \<Rightarrow>
                        (case latacc_filtered_ranges pts2
                                (constant_velocity_dist_threshold (latacc smoother_param))
                                filtered_points of
                           Inl e \<Rightarrow> Inl e
                         | Inr ranges \<Rightarrow>
                        (case latacc_plateau_loop
                                (enable_constant_velocity_while_turning (latacc smoother_param))
                                ranges 0 pts2 of
                           Inl e \<Rightarrow> Inl e
                         | Inr pts3 \<Rightarrow> Inr (Some (output1\<lparr>points := pts3\<rparr>))))))))))"

text \<open>
  The notions the specification uses for the lateral acceleration filter: the look-around
  window of a point, the largest absolute curvature estimate in it, the velocity cap that
  follows from it (with the floor), the indices of the capped points, and their groups:
  the maximal runs of capped indices in which each member is closer than the threshold to
  the one before.
\<close>

definition window_start :: "DoubleArith \<Rightarrow> BaseParam \<Rightarrow> nat \<Rightarrow> nat" where
  "window_start da base_param i =
     (if i > decel_index da (decel_distance_before_curve base_param)
      then i - decel_index da (decel_distance_before_curve base_param) else 0)"

definition window_end :: "DoubleArith \<Rightarrow> BaseParam \<Rightarrow> nat \<Rightarrow> nat \<Rightarrow> nat" where
  "window_end da base_param n i = min n (i + decel_index da (decel_distance_after_curve base_param))"

definition window_curvature_max :: "real list \<Rightarrow> nat \<Rightarrow> nat \<Rightarrow> real" where
  "window_curvature_max curvature_v s e = Max (insert 0 ((\<lambda>j. \<bar>curvature_v ! j\<bar>) ` {s ..< e}))"

definition point_curvature :: "DoubleArith \<Rightarrow> BaseParam \<Rightarrow> real list \<Rightarrow> nat \<Rightarrow> nat \<Rightarrow> real" where
  "point_curvature da base_param curvature_v n i =
     window_curvature_max curvature_v (window_start da base_param i) (window_end da base_param n i)"

definition velocity_cap :: "DoubleArith \<Rightarrow> BaseParam \<Rightarrow> real list \<Rightarrow> nat \<Rightarrow> nat \<Rightarrow> real" where
  "velocity_cap da base_param curvature_v n i =
     v_curvature_max_of base_param (point_curvature da base_param curvature_v n i)"

definition capped_indices :: "DoubleArith \<Rightarrow> BaseParam \<Rightarrow> real list \<Rightarrow> TrajectoryPoint list \<Rightarrow> nat list" where
  "capped_indices da base_param curvature_v pts =
     filter (\<lambda>k. vel (pts ! k) > velocity_cap da base_param curvature_v (length pts) k)
       [0 ..< length pts]"

fun split_runs :: "(nat \<Rightarrow> nat \<Rightarrow> bool) \<Rightarrow> nat list \<Rightarrow> nat list \<Rightarrow> nat list list" where
  "split_runs close cur [] = [cur]"
| "split_runs close cur (x # xs) =
     (if close (last cur) x then split_runs close (cur @ [x]) xs
      else cur # split_runs close [x] xs)"

definition runs_of :: "(nat \<Rightarrow> nat \<Rightarrow> bool) \<Rightarrow> nat list \<Rightarrow> nat list list" where
  "runs_of close xs = (case xs of [] \<Rightarrow> [] | x # rest \<Rightarrow> split_runs close [x] rest)"

definition capped_groups ::
  "DoubleArith \<Rightarrow> BaseParam \<Rightarrow> real \<Rightarrow> real list \<Rightarrow> TrajectoryPoint list \<Rightarrow> nat list list" where
  "capped_groups da base_param dist_threshold curvature_v pts =
     runs_of (\<lambda>a b. calcDistance2d (pts ! a) (pts ! b) < dist_threshold)
       (capped_indices da base_param curvature_v pts)"

definition range_of :: "TrajectoryPoint list \<Rightarrow> nat list \<Rightarrow> nat \<times> nat \<times> real" where
  "range_of pts g = (hd g, last g, Min ((\<lambda>j. vel (pts ! j)) ` set g))"





section \<open>Basic facts\<close>

lemma vel_set_vel [simp]: "vel (set_vel v p) = v"
  by (simp add: vel_def set_vel_def)

lemma acc_set_acc [simp]: "acc (set_acc a p) = a"
  by (simp add: acc_def set_acc_def)

lemma vel_set_acc [simp]: "vel (set_acc a p) = vel p"
  by (simp add: vel_def set_acc_def)

lemma acc_set_vel [simp]: "acc (set_vel v p) = acc p"
  by (simp add: acc_def set_vel_def)

lemma set_vel_pose [simp]: "pose (set_vel v p) = pose p"
  by (simp add: set_vel_def)

lemma set_acc_pose [simp]: "pose (set_acc a p) = pose p"
  by (simp add: set_acc_def)

lemma at_vec_Inr_iff: "at_vec xs i = Inr y \<longleftrightarrow> i < length xs \<and> y = xs ! i"
  by (auto simp: at_vec_def)

lemma at_vec_in_range [simp]: "i < length xs \<Longrightarrow> at_vec xs i = Inr (xs ! i)"
  by (simp add: at_vec_def)

lemma at_vec_out_of_range [simp]: "length xs \<le> i \<Longrightarrow> at_vec xs i = Inl OutOfRange"
  by (simp add: at_vec_def)

section \<open>applyMaxVelocity: the guard and the indices\<close>

lemma applyMaxVelocity_loop_length:
  "applyMaxVelocity_loop m i e pts = Inr pts' \<Longrightarrow> length pts' = length pts"
proof (induction m i e pts rule: applyMaxVelocity_loop.induct)
  case (1 m i e pts)
  show ?case
  proof (cases "i \<le> e")
    case False
    with "1.prems" show ?thesis
      by (simp add: applyMaxVelocity_loop.simps [of m i e pts])
  next
    case True
    show ?thesis
    proof (cases "i < length pts")
      case inside: True
      from True inside "1.prems" have
        "applyMaxVelocity_loop m (Suc i) e
           (pts[i := set_acc 0 (set_vel (min (vel (pts ! i)) m) (pts ! i))]) = Inr pts'"
        by (simp add: applyMaxVelocity_loop.simps [of m i e pts])
      with "1.IH" [OF True, of "pts ! i"] inside show ?thesis by simp
    next
      case False
      with True "1.prems" show ?thesis
        by (simp add: applyMaxVelocity_loop.simps [of m i e pts])
    qed
  qed
qed

text \<open>The loop ends normally only when every index up to \<open>end_index\<close> is a valid one.\<close>

lemma applyMaxVelocity_loop_Inr_bound:
  "applyMaxVelocity_loop m i e pts = Inr pts' \<Longrightarrow> i \<le> e \<Longrightarrow> e < length pts"
proof (induction m i e pts rule: applyMaxVelocity_loop.induct)
  case (1 m i e pts)
  from "1.prems" have inside: "i < length pts"
    by (cases "i < length pts") (simp_all add: applyMaxVelocity_loop.simps [of m i e pts])
  with "1.prems" have rec:
    "applyMaxVelocity_loop m (Suc i) e
       (pts[i := set_acc 0 (set_vel (min (vel (pts ! i)) m) (pts ! i))]) = Inr pts'"
    by (simp add: applyMaxVelocity_loop.simps [of m i e pts])
  show ?case
  proof (cases "Suc i \<le> e")
    case True
    with "1.IH" [OF "1.prems"(2), of "pts ! i"] inside rec show ?thesis by simp
  next
    case False
    with "1.prems"(2) inside show ?thesis by simp
  qed
qed


lemma applyMaxVelocity_loop_char:
  "e < length pts \<Longrightarrow>
   \<exists>pts'. applyMaxVelocity_loop m i e pts = Inr pts' \<and> length pts' = length pts \<and>
     (\<forall>k. pts' ! k = (if i \<le> k \<and> k \<le> e
                        then set_acc 0 (set_vel (min (vel (pts ! k)) m) (pts ! k))
                        else pts ! k))"
proof (induction "Suc e - i" arbitrary: i pts)
  case 0
  then have "\<not> i \<le> e" by simp
  then show ?case by (simp add: applyMaxVelocity_loop.simps [of m i e pts])
next
  case (Suc n)
  then have ie: "i \<le> e" and il: "i < length pts" by simp_all
  define new where "new = set_acc 0 (set_vel (min (vel (pts ! i)) m) (pts ! i))"
  have step: "applyMaxVelocity_loop m i e pts = applyMaxVelocity_loop m (Suc i) e (pts[i := new])"
    using ie il by (simp add: applyMaxVelocity_loop.simps [of m i e pts] new_def)
  from Suc.hyps(2) have n: "n = Suc e - Suc i" by simp
  have "e < length (pts[i := new])" using Suc.prems by simp
  from Suc.hyps(1) [OF n this] obtain pts' where
    r: "applyMaxVelocity_loop m (Suc i) e (pts[i := new]) = Inr pts'" and
    l: "length pts' = length (pts[i := new])" and
    c: "\<forall>k. pts' ! k = (if Suc i \<le> k \<and> k \<le> e
                        then set_acc 0 (set_vel (min (vel (pts[i := new] ! k)) m) (pts[i := new] ! k))
                        else pts[i := new] ! k)"
    by blast
  have "\<forall>k. pts' ! k = (if i \<le> k \<and> k \<le> e
                        then set_acc 0 (set_vel (min (vel (pts ! k)) m) (pts ! k))
                        else pts ! k)"
  proof
    fix k
    show "pts' ! k = (if i \<le> k \<and> k \<le> e
                        then set_acc 0 (set_vel (min (vel (pts ! k)) m) (pts ! k))
                        else pts ! k)"
    proof (cases "k = i")
      case True
      with c [rule_format, of k] ie il show ?thesis by (simp add: new_def)
    next
      case False
      with c [rule_format, of k] show ?thesis by auto
    qed
  qed
  with r l show ?case unfolding step by simp
qed

lemma applyMaxVelocity_in_range:
  assumes "e < length (points tr)"
  shows "\<exists>r. applyMaxVelocity m s e tr = Inr r \<and>
           length (points (snd r)) = length (points tr) \<and> header (snd r) = header tr \<and>
           (\<forall>k. points (snd r) ! k =
                  (if s \<le> k \<and> k \<le> e
                   then set_acc 0 (set_vel (min (vel (points tr ! k)) m) (points tr ! k))
                   else points tr ! k))"
proof (cases "e < s")
  case True
  then show ?thesis by (simp add: applyMaxVelocity_def)
next
  case False
  from applyMaxVelocity_loop_char [OF assms, of m s] obtain pts' where
    "applyMaxVelocity_loop m s e (points tr) = Inr pts'" "length pts' = length (points tr)"
    "\<forall>k. pts' ! k = (if s \<le> k \<and> k \<le> e
                        then set_acc 0 (set_vel (min (vel (points tr ! k)) m) (points tr ! k))
                        else points tr ! k)" by blast
  with False assms show ?thesis by (simp add: applyMaxVelocity_def)
qed

lemma applyMaxVelocity_false_unchanged:
  "applyMaxVelocity m s e tr = Inr (False, tr') \<Longrightarrow> tr' = tr"
  by (auto simp: applyMaxVelocity_def split: if_splits sum.splits)




text \<open>
  C9: the control state machine starts in the Stopped state: \<^verbatim>\<open>control_state_\<close> is declared
  with the initialiser \<^verbatim>\<open>ControlState::STOPPED\<close>, so that is its value before any control
  cycle has run.
\<close>

theorem control_state_initially_stopped:
  "control_state VelocityController_init = STOPPED"
  by (simp add: VelocityController_init_def)

section \<open>searchDecelTargetIndices: the loops as comprehensions\<close>

lemma wrap_sub_le:
  fixes a b M :: nat
  assumes "a \<le> b" "b < M"
  shows "(b + M - a mod M) mod M = b - a"
proof -
  from assms have a: "a mod M = a" by simp
  from assms have e: "b + M - a = (b - a) + M" by simp
  from assms have l: "b - a < M" by simp
  show ?thesis unfolding a e using l by simp
qed

lemma size_t_sub_le: "a \<le> b \<Longrightarrow> b < 2 ^ 64 \<Longrightarrow> size_t_sub b a = b - a"
  unfolding size_t_sub_def by (rule wrap_sub_le)

lemma size_t_sub_1: "0 < n \<Longrightarrow> n < 2 ^ 64 \<Longrightarrow> size_t_sub n 1 = n - 1"
  using size_t_sub_le [of 1 n] by simp

lemma search_interior_eq:
  "upper < length pts \<Longrightarrow> 1 \<le> i \<Longrightarrow>
   search_interior pts i upper tmp =
     Inr (tmp @ map (\<lambda>j. (j, vel (pts ! j))) (filter (is_local_minimum pts) [i ..< upper]))"
proof (induction pts i upper tmp rule: search_interior.induct)
  case (1 pts i upper tmp)
  show ?case
  proof (cases "i < upper")
    case False
    then show ?thesis by (simp add: search_interior.simps [of pts i upper tmp])
  next
    case True
    with "1.prems" have r: "i < length pts" "i - 1 < length pts" "i + 1 < length pts" by auto
    have cond_eq: "(vel (pts ! i) - vel (pts ! (i - Suc 0)) < ep_dv \<and>
        ep_dv < vel (pts ! Suc i) - vel (pts ! i)) = is_local_minimum pts i"
      by (simp add: is_local_minimum_def)
    have step: "search_interior pts i upper tmp =
        search_interior pts (Suc i) upper
          (if is_local_minimum pts i then tmp @ [(i, vel (pts ! i))] else tmp)"
      using True r by (simp add: search_interior.simps [of pts i upper tmp] cond_eq Let_def)
    have "search_interior pts (Suc i) upper
          (if is_local_minimum pts i then tmp @ [(i, vel (pts ! i))] else tmp) =
        Inr ((if is_local_minimum pts i then tmp @ [(i, vel (pts ! i))] else tmp) @
           map (\<lambda>j. (j, vel (pts ! j))) (filter (is_local_minimum pts) [Suc i ..< upper]))"
      using "1.IH" [OF True, of "pts ! i" "pts ! (i - 1)" "pts ! (i + 1)"] r "1.prems"
      by (simp add: cond_eq)
    then show ?thesis using step True by (simp add: upt_conv_Cons)
  qed
qed

lemma coalesce_loop_eq:
  assumes ne: "tmp \<noteq> []" and len: "length tmp < 2 ^ 64"
    and mono: "\<forall>k. Suc k < length tmp \<longrightarrow>
                 fst (tmp ! k) \<le> fst (tmp ! Suc k) \<and> fst (tmp ! Suc k) < 2 ^ 64"
  shows "coalesce_loop tmp i out =
     Inr (out @ map (\<lambda>k. tmp ! k) (filter (\<lambda>k. \<not> is_coalesced tmp k) [i ..< length tmp - 1]))"
proof (induction "length tmp - 1 - i" arbitrary: i out)
  case 0
  have sz: "size_t_sub (length tmp) 1 = length tmp - 1"
    using ne len size_t_sub_1 [of "length tmp"] by simp
  from 0 have "\<not> i < length tmp - 1" by simp
  then show ?case
    by (simp add: coalesce_loop.simps [of tmp i out] sz del: One_nat_def)
next
  case (Suc n)
  have sz: "size_t_sub (length tmp) 1 = length tmp - 1"
    using ne len size_t_sub_1 [of "length tmp"] by simp
  from Suc.hyps(2) have True: "i < length tmp - 1" by simp
  then have r: "Suc i < length tmp" "i < length tmp" by auto
  have sub: "size_t_sub (fst (tmp ! Suc i)) (fst (tmp ! i)) = fst (tmp ! Suc i) - fst (tmp ! i)"
    using mono r(1) by (simp add: size_t_sub_le)
  have co: "(size_t_sub (fst (tmp ! (i + 1))) (fst (tmp ! i)) < 10 \<and>
       snd (tmp ! (i + 1)) < snd (tmp ! i)) = is_coalesced tmp i"
    using r sub by (simp add: is_coalesced_def)
  have step: "coalesce_loop tmp i out =
      coalesce_loop tmp (Suc i) (if is_coalesced tmp i then out else out @ [tmp ! i])"
    using r True by (simp add: coalesce_loop.simps [of tmp i out] sz co del: One_nat_def)
  from Suc.hyps(2) have m: "n = length tmp - 1 - Suc i" by simp
  have upt: "[i ..< length tmp - 1] = i # [Suc i ..< length tmp - 1]"
    using True by (simp add: upt_conv_Cons)
  show ?case
    unfolding step Suc.hyps(1) [OF m] upt by simp
qed

lemma vel_point_at [simp]: "vel (point_at px py v a) = v"
  by (simp add: vel_def point_at_def)

lemma acc_point_at [simp]: "acc (point_at px py v a) = a"
  by (simp add: acc_def point_at_def)

lemma points_trajectory_of [simp]: "points (trajectory_of pts) = pts"
  by (simp add: trajectory_of_def)

lemma minima_candidates_sorted:
  "sorted (map fst (minima_candidates pts ci))"
proof -
  have m: "map (fst \<circ> (\<lambda>i. (i, vel (pts ! i)))) xs = xs" for xs :: "nat list"
    by (induction xs) auto
  have s: "sorted (filter (is_local_minimum pts) [max 1 ci ..< length pts - 1])"
    by (rule sorted_wrt_filter) simp
  show ?thesis
    using s by (auto simp: minima_candidates_def m sorted_append)
qed

lemma minima_candidates_bound:
  "x \<in> set (minima_candidates pts ci) \<Longrightarrow> 2 \<le> length pts \<Longrightarrow> fst x < length pts"
  by (auto simp: minima_candidates_def split: if_splits)

lemma minima_candidates_length:
  "2 \<le> length pts \<Longrightarrow> length (minima_candidates pts ci) \<le> length pts"
proof -
  have "length (filter (is_local_minimum pts) [max 1 ci ..< length pts - 1])
        \<le> length [max 1 ci ..< length pts - 1]"
    by (rule length_filter_le)
  moreover assume "2 \<le> length pts"
  ultimately show ?thesis by (auto simp: minima_candidates_def)
qed

lemma targets_split_last:
  assumes "cs \<noteq> []"
  shows "map (\<lambda>k. cs ! k) (filter (\<lambda>k. \<not> is_coalesced cs k) [0 ..< length cs]) =
         map (\<lambda>k. cs ! k) (filter (\<lambda>k. \<not> is_coalesced cs k) [0 ..< length cs - 1]) @ [last cs]"
proof -
  from assms obtain n where n: "length cs = Suc n" by (cases cs) auto
  have "\<not> is_coalesced cs n" using n by (simp add: is_coalesced_def)
  moreover have "cs ! n = last cs" using assms n by (simp add: last_conv_nth)
  ultimately show ?thesis using n by simp
qed

lemma searchDecelTargetIndices_eq:
  assumes two: "2 \<le> length (points trajectory)"
      and fits: "length (points trajectory) \<le> 2 ^ 32"
  shows "searchDecelTargetIndices trajectory closest_index decel_target_indices =
         Inr (decel_target_indices @ local_minima_targets (points trajectory) closest_index)"
proof -
  define pts where "pts = points trajectory"
  define n where "n = length pts"
  define cs where "cs = minima_candidates pts closest_index"
  have n2: "2 \<le> n" and n32: "n \<le> 2 ^ 32" using two fits by (simp_all add: n_def pts_def)
  have n64: "n < 2 ^ 64" using n32 by simp
  have up: "size_t_sub n 1 = n - 1" using size_t_sub_1 [of n] n2 n64 by simp
  have lt32: "n - 1 < 2 ^ 32" using n2 n32 by simp
  have last_i: "uint_of_size_t (n - 1) = n - 1"
    unfolding uint_of_size_t_def using lt32 by (rule mod_less)
  have "uint_sub (n - 1) 1 = n - 1 - 1"
    unfolding uint_sub_def using n2 lt32 by (intro wrap_sub_le) simp_all
  then have prev_i: "uint_sub (n - 1) 1 = n - 2" by simp
  have interior: "search_interior pts (max 1 closest_index) (n - 1) [] =
      Inr (map (\<lambda>j. (j, vel (pts ! j)))
             (filter (is_local_minimum pts) [max 1 closest_index ..< n - 1]))"
    using search_interior_eq [of "n - 1" pts "max 1 closest_index" "[]"] n2
    by (simp add: n_def)
  have tmp: "(if vel (pts ! (n - 1)) - vel (pts ! (n - 2)) < ep_dv
              then map (\<lambda>j. (j, vel (pts ! j)))
                     (filter (is_local_minimum pts) [max 1 closest_index ..< n - 1])
                   @ [(n - 1, vel (pts ! (n - 1)))]
              else map (\<lambda>j. (j, vel (pts ! j)))
                     (filter (is_local_minimum pts) [max 1 closest_index ..< n - 1])) = cs"
    by (simp add: cs_def minima_candidates_def decreases_into_last_def n_def)
  have r: "n - 1 < length pts" "n - 2 < length pts" using n2 by (simp_all add: n_def)
  have src: "searchDecelTargetIndices trajectory closest_index decel_target_indices =
      (if cs \<noteq> [] then
         (case coalesce_loop cs 0 decel_target_indices of
            Inl e \<Rightarrow> Inl e
          | Inr out \<Rightarrow> Inr (out @ [last cs]))
       else Inr decel_target_indices)"
    unfolding searchDecelTargetIndices_def Let_def pts_def [symmetric] n_def [symmetric]
      up interior sum.case last_i prev_i at_vec_in_range [OF r(1)] at_vec_in_range [OF r(2)] tmp
    by (rule refl)
  show ?thesis
  proof (cases "cs = []")
    case True
    then show ?thesis
      unfolding src by (simp add: local_minima_targets_def cs_def [symmetric] pts_def [symmetric])
  next
    case False
    have len: "length cs < 2 ^ 64"
      using minima_candidates_length [of pts closest_index] n2 n64 by (simp add: cs_def n_def)
    have mono: "\<forall>k. Suc k < length cs \<longrightarrow>
                 fst (cs ! k) \<le> fst (cs ! Suc k) \<and> fst (cs ! Suc k) < 2 ^ 64"
    proof (intro allI impI conjI)
      fix k assume k: "Suc k < length cs"
      have "sorted (map fst cs)" unfolding cs_def by (rule minima_candidates_sorted)
      from sorted_nth_mono [OF this, of k "Suc k"] k
      show "fst (cs ! k) \<le> fst (cs ! Suc k)" by simp
      from k have "cs ! Suc k \<in> set cs" by simp
      then have "fst (cs ! Suc k) < n"
        unfolding cs_def n_def using minima_candidates_bound n2 n_def by blast
      with n64 show "fst (cs ! Suc k) < 2 ^ 64" by simp
    qed
    show ?thesis
      unfolding src coalesce_loop_eq [OF False len mono]
      using False targets_split_last [OF False]
      by (simp add: local_minima_targets_def cs_def [symmetric] pts_def [symmetric])
  qed
qed

lemma local_minima_targets_example:
  "local_minima_targets
     [point_at 0 0 3 0, point_at 1 0 1 0, point_at 2 0 2 0, point_at 3 0 0 0] 0 = [(3, 0)]"
proof -
  have u: "[Suc 0 ..< 3] = [1, 2]" "[0 ..< 2] = [0, 1]"
    by (simp_all add: upt_rec)
  show ?thesis
    by (simp add: local_minima_targets_def minima_candidates_def is_local_minimum_def
        decreases_into_last_def is_coalesced_def ep_dv_def u)
qed

text \<open>
  C4: for a trajectory of at least two points (\<^verbatim>\<open>apply\<close> calls the search only then; the
  last index must fit the \<^verbatim>\<open>unsigned int\<close> it is stored in), the search appends to its
  output exactly the local minima of the velocity profile: every interior index from
  \<open>max 1 closest_index\<close> to \<open>size - 2\<close> where the velocity drops by more than \<open>1e-5\<close> from
  the point before and does not drop by \<open>1e-5\<close> or more to the point after, then the final
  index when the velocity drops into it; a candidate is left out when the next candidate
  is fewer than 10 indices later and strictly slower.
\<close>

theorem searchDecelTargetIndices_local_minima:
  assumes "2 \<le> length (points trajectory)"
      and "length (points trajectory) \<le> 2 ^ 32"
  shows "searchDecelTargetIndices trajectory closest_index decel_target_indices =
         Inr (decel_target_indices @ local_minima_targets (points trajectory) closest_index)"
  using assms by (rule searchDecelTargetIndices_eq)

text \<open>
  An instance: velocities \<open>3, 1, 2, 0\<close>. Index 1 is a local minimum, but the final index
  is two steps later and slower, so only \<open>(3, 0)\<close> is a target.
\<close>

theorem searchDecelTargetIndices_local_minima_witness:
  "2 \<le> length (points (trajectory_of
       [point_at 0 0 3 0, point_at 1 0 1 0, point_at 2 0 2 0, point_at 3 0 0 0])) \<and>
   length (points (trajectory_of
       [point_at 0 0 3 0, point_at 1 0 1 0, point_at 2 0 2 0, point_at 3 0 0 0])) \<le> 2 ^ 32 \<and>
   searchDecelTargetIndices (trajectory_of
       [point_at 0 0 3 0, point_at 1 0 1 0, point_at 2 0 2 0, point_at 3 0 0 0]) 0 [] =
     Inr [(3, 0)]"
  using searchDecelTargetIndices_local_minima [of "trajectory_of
       [point_at 0 0 3 0, point_at 1 0 1 0, point_at 2 0 2 0, point_at 3 0 0 0]" 0 "[]"]
  by (simp add: local_minima_targets_example)

section \<open>applyForwardJerkFilter: what each pass writes\<close>

lemma forward_loop_unfold_in:
  assumes "i < length base" "i < length out" "1 \<le> i"
  shows "forward_loop base fp i out =
     forward_loop base fp (Suc i)
       (out[i := set_acc
                  (snd (forward_jerk_step fp (vel (out ! (i - 1))) (acc (out ! (i - 1)))
                     (calcDistance2d (base ! (i - 1)) (base ! i)) (vel (base ! i))))
                  (set_vel
                    (fst (forward_jerk_step fp (vel (out ! (i - 1))) (acc (out ! (i - 1)))
                       (calcDistance2d (base ! (i - 1)) (base ! i)) (vel (base ! i))))
                    (out ! i))])"
proof -
  from assms have r: "i - 1 < length out" "i - 1 < length base" by simp_all
  show ?thesis
    unfolding forward_loop.simps [of base fp i out]
    using assms(1,2) r by (simp add: case_prod_beta)
qed

lemma forward_loop_done: "\<not> i < length base \<Longrightarrow> forward_loop base fp i out = Inr out"
  by (simp add: forward_loop.simps [of base fp i out])

lemma forward_loop_throws:
  "i < length base \<Longrightarrow> length out \<le> i \<Longrightarrow> forward_loop base fp i out = Inl OutOfRange"
  by (auto simp: forward_loop.simps [of base fp i out] at_vec_def split: sum.splits)

lemma forward_loop_returns:
  "1 \<le> i \<Longrightarrow> length base \<le> length out \<Longrightarrow> \<exists>out'. forward_loop base fp i out = Inr out'"
proof (induction "length base - i" arbitrary: i out)
  case 0
  then show ?case by (simp add: forward_loop_done)
next
  case (Suc n)
  then have i: "i < length base" "i < length out" by simp_all
  from Suc.hyps(2) have m: "n = length base - Suc i" by simp
  show ?case
    unfolding forward_loop_unfold_in [OF i Suc.prems(1)]
    by (rule Suc.hyps(1) [OF m]) (use Suc.prems in simp_all)
qed

lemma forward_loop_char:
  "forward_loop base fp i out = Inr out' \<Longrightarrow> 1 \<le> i \<Longrightarrow>
   length out' = length out \<and>
   (\<forall>k. k < i \<or> length base \<le> k \<longrightarrow> out' ! k = out ! k) \<and>
   (\<forall>k. i \<le> k \<and> k < length base \<longrightarrow>
      out' ! k = set_acc (snd (forward_point fp base out' k))
                   (set_vel (fst (forward_point fp base out' k)) (out ! k)))"
proof (induction "length base - i" arbitrary: i out)
  case 0
  then show ?case by (simp add: forward_loop_done)
next
  case (Suc n)
  then have i: "i < length base" by simp
  have io: "i < length out"
  proof (rule ccontr)
    assume "\<not> i < length out"
    with i Suc.prems(1) show False by (simp add: forward_loop_throws)
  qed
  from Suc.hyps(2) have m: "n = length base - Suc i" by simp
  define new where "new = set_acc
                  (snd (forward_jerk_step fp (vel (out ! (i - 1))) (acc (out ! (i - 1)))
                     (calcDistance2d (base ! (i - 1)) (base ! i)) (vel (base ! i))))
                  (set_vel
                    (fst (forward_jerk_step fp (vel (out ! (i - 1))) (acc (out ! (i - 1)))
                       (calcDistance2d (base ! (i - 1)) (base ! i)) (vel (base ! i))))
                    (out ! i))"
  have rec: "forward_loop base fp (Suc i) (out[i := new]) = Inr out'"
    using Suc.prems(1) unfolding forward_loop_unfold_in [OF i io Suc.prems(2)] new_def .
  have "1 \<le> Suc i" by simp
  note ih = Suc.hyps(1) [OF m rec this]
  note len = ih [THEN conjunct1]
  note keep = ih [THEN conjunct2, THEN conjunct1, rule_format]
  note later = ih [THEN conjunct2, THEN conjunct2, rule_format]
  have "i < Suc i \<or> length base \<le> i" by simp
  from keep [OF this] have at_i: "out' ! i = new" using io by simp
  have "i - 1 < Suc i \<or> length base \<le> i - 1" by arith
  from keep [OF this] have before: "out' ! (i - 1) = out ! (i - 1)"
    using Suc.prems(2) by simp
  have new_eq: "new = set_acc (snd (forward_point fp base out' i))
                   (set_vel (fst (forward_point fp base out' i)) (out ! i))"
    by (simp only: new_def forward_point_def before)
  show ?case
  proof (intro conjI allI impI)
    show "length out' = length out" using len by simp
  next
    fix k assume "k < i \<or> length base \<le> k"
    then have ki: "k \<noteq> i" and "k < Suc i \<or> length base \<le> k" using i by auto
    from keep [OF this(2)] ki show "out' ! k = out ! k" by simp
  next
    fix k assume k: "i \<le> k \<and> k < length base"
    show "out' ! k = set_acc (snd (forward_point fp base out' k))
                   (set_vel (fst (forward_point fp base out' k)) (out ! k))"
    proof (cases "k = i")
      case True
      then show ?thesis using at_i new_eq by simp
    next
      case False
      with k have "Suc i \<le> k \<and> k < length base" by simp
      from later [OF this] False show ?thesis by simp
    qed
  qed
qed


lemma calcDistance2d_nonneg: "0 \<le> calcDistance2d p q"
  by (simp add: calcDistance2d_def)

lemma forward_dt_nonneg: "0 \<le> ds \<Longrightarrow> 0 \<le> forward_dt ds v"
  by (simp add: forward_dt_def)

lemma forward_dt_le: "0 \<le> ds \<Longrightarrow> forward_dt ds v \<le> ds"
proof -
  assume ds: "0 \<le> ds"
  have "1 \<le> max v (1::real)" by simp
  then have "ds / max v 1 \<le> ds / 1" using ds by (intro divide_left_mono) simp_all
  then show ?thesis by (simp add: forward_dt_def)
qed

lemma forward_dt_denominator: "1 \<le> max v (1::real)"
  by simp

lemma forward_jerk_step_vel:
  "fst (forward_jerk_step fp v a ds bv) = v + a * forward_dt ds v"
  by (simp add: forward_jerk_step_def Let_def)

lemma clamp_between:
  fixes lo hi x :: real
  assumes "lo \<le> hi"
  shows "lo \<le> max lo (min hi x)" "max lo (min hi x) \<le> hi"
  using assms by auto

lemma forward_jerk_step_jerk:
  assumes "fwd_min_jerk fp \<le> fwd_max_jerk fp" "0 \<le> ds"
  shows "fwd_min_jerk fp * forward_dt ds v \<le> snd (forward_jerk_step fp v a ds bv) - a"
    and "snd (forward_jerk_step fp v a ds bv) - a \<le> fwd_max_jerk fp * forward_dt ds v"
proof -
  define dt where "dt = forward_dt ds v"
  define L where "L = max (fwd_min_acc fp) (min (fwd_max_acc fp) (fwd_kp fp * (bv - (v + a * dt))))"
  define lj where "lj = max (fwd_min_jerk fp) (min (fwd_max_jerk fp) ((L - a) / dt))"
  have dt0: "0 \<le> dt" unfolding dt_def using assms(2) by (rule forward_dt_nonneg)
  have s: "snd (forward_jerk_step fp v a ds bv) - a = lj * dt"
    by (simp add: forward_jerk_step_def Let_def lj_def L_def dt_def)
  have "fwd_min_jerk fp \<le> lj" "lj \<le> fwd_max_jerk fp"
    unfolding lj_def using assms(1) by (rule clamp_between)+
  then have "fwd_min_jerk fp * dt \<le> lj * dt" "lj * dt \<le> fwd_max_jerk fp * dt"
    using dt0 by (simp_all add: mult_right_mono)
  then show "fwd_min_jerk fp * forward_dt ds v \<le> snd (forward_jerk_step fp v a ds bv) - a"
    and "snd (forward_jerk_step fp v a ds bv) - a \<le> fwd_max_jerk fp * forward_dt ds v"
    unfolding s dt_def by simp_all
qed

lemma forward_jerk_step_acc:
  assumes v: "valid_forward_bounds fp" and ds: "0 \<le> ds"
    and a: "fwd_min_acc fp \<le> a" "a \<le> fwd_max_acc fp"
  shows "fwd_min_acc fp \<le> snd (forward_jerk_step fp v0 a ds bv)"
    and "snd (forward_jerk_step fp v0 a ds bv) \<le> fwd_max_acc fp"
proof -
  define dt where "dt = forward_dt ds v0"
  define L where "L = max (fwd_min_acc fp) (min (fwd_max_acc fp) (fwd_kp fp * (bv - (v0 + a * dt))))"
  define J where "J = (L - a) / dt"
  define lj where "lj = max (fwd_min_jerk fp) (min (fwd_max_jerk fp) J)"
  have dt0: "0 \<le> dt" unfolding dt_def using ds by (rule forward_dt_nonneg)
  have s: "snd (forward_jerk_step fp v0 a ds bv) = a + lj * dt"
    by (simp add: forward_jerk_step_def Let_def lj_def J_def L_def dt_def)
  from v have b: "fwd_min_acc fp \<le> fwd_max_acc fp" "fwd_min_jerk fp \<le> 0" "0 \<le> fwd_max_jerk fp"
    by (simp_all add: valid_forward_bounds_def)
  have L: "fwd_min_acc fp \<le> L" "L \<le> fwd_max_acc fp"
    unfolding L_def using b(1) by (rule clamp_between)+
  have between: "min a L \<le> a + lj * dt \<and> a + lj * dt \<le> max a L"
  proof (cases "dt = 0")
    case True
    then show ?thesis by simp
  next
    case False
    with dt0 have pos: "0 < dt" by simp
    then have Jdt: "J * dt = L - a" by (simp add: J_def)
    consider (lo) "J < fwd_min_jerk fp" | (mid) "fwd_min_jerk fp \<le> J" "J \<le> fwd_max_jerk fp"
      | (hi) "fwd_max_jerk fp < J" by linarith
    then show ?thesis
    proof cases
      case lo
      with b have "lj = fwd_min_jerk fp" by (simp add: lj_def)
      moreover from lo pos have "J * dt \<le> fwd_min_jerk fp * dt" by (simp add: mult_right_mono)
      moreover from b(2) pos have "fwd_min_jerk fp * dt \<le> 0" by (simp add: mult_le_0_iff)
      ultimately show ?thesis using Jdt by auto
    next
      case mid
      then have "lj = J" by (simp add: lj_def)
      then show ?thesis using Jdt by auto
    next
      case hi
      with b have "lj = fwd_max_jerk fp" by (simp add: lj_def)
      moreover from hi pos have "fwd_max_jerk fp * dt \<le> J * dt" by (simp add: mult_right_mono)
      moreover from b(3) pos have "0 \<le> fwd_max_jerk fp * dt" by simp
      ultimately show ?thesis using Jdt by auto
    qed
  qed
  from between a L show "fwd_min_acc fp \<le> snd (forward_jerk_step fp v0 a ds bv)"
    unfolding s by auto
  from between a L show "snd (forward_jerk_step fp v0 a ds bv) \<le> fwd_max_acc fp"
    unfolding s by auto
qed

section \<open>applyForwardJerkFilter: bounds and time steps\<close>

lemma applyForwardJerkFilter_returns:
  assumes "start_index < length (points out)" "length (points base) \<le> length (points out)"
  shows "\<exists>out'. applyForwardJerkFilter base start_index v0 a0 params out = Inr out'"
proof -
  have "\<exists>pts. forward_loop (points base) (forward params) (start_index + 1)
          ((points out)[start_index := set_acc a0 (set_vel v0 (points out ! start_index))]) = Inr pts"
    by (rule forward_loop_returns) (use assms in simp_all)
  then show ?thesis
    using assms(1) by (auto simp: applyForwardJerkFilter_def)
qed

lemma applyForwardJerkFilter_char:
  assumes "applyForwardJerkFilter base s v0 a0 params out = Inr out'"
  shows "s < length (points out)"
    and "length (points out') = length (points out)"
    and "header out' = header out"
    and "points out' ! s = set_acc a0 (set_vel v0 (points out ! s))"
    and "\<And>k. k < s \<or> (length (points base) \<le> k \<and> k \<noteq> s) \<Longrightarrow> points out' ! k = points out ! k"
    and "\<And>k. s < k \<Longrightarrow> k < length (points base) \<Longrightarrow>
          points out' ! k =
            set_acc (snd (forward_point (forward params) (points base) (points out') k))
              (set_vel (fst (forward_point (forward params) (points base) (points out') k))
                 (points out ! k))"
proof -
  show s: "s < length (points out)"
    using assms by (cases "s < length (points out)") (simp_all add: applyForwardJerkFilter_def)
  define out0 where "out0 = (points out)[s := set_acc a0 (set_vel v0 (points out ! s))]"
  from assms s obtain pts where
    loop: "forward_loop (points base) (forward params) (s + 1) out0 = Inr pts" and
    out': "out' = out\<lparr>points := pts\<rparr>"
    by (auto simp: applyForwardJerkFilter_def out0_def split: sum.splits)
  have "1 \<le> s + 1" by simp
  note ch = forward_loop_char [OF loop this]
  note len = ch [THEN conjunct1]
  note keep = ch [THEN conjunct2, THEN conjunct1, rule_format]
  note later = ch [THEN conjunct2, THEN conjunct2, rule_format]
  show "length (points out') = length (points out)" using len by (simp add: out' out0_def)
  show "header out' = header out" by (simp add: out')
  have "s < s + 1 \<or> length (points base) \<le> s" by simp
  from keep [OF this] show "points out' ! s = set_acc a0 (set_vel v0 (points out ! s))"
    using s by (simp add: out' out0_def)
  show "points out' ! k = points out ! k"
    if "k < s \<or> (length (points base) \<le> k \<and> k \<noteq> s)" for k
  proof -
    from that have "k < s + 1 \<or> length (points base) \<le> k" and "k \<noteq> s" by auto
    from keep [OF this(1)] this(2) show ?thesis by (simp add: out' out0_def)
  qed
  show "points out' ! k =
            set_acc (snd (forward_point (forward params) (points base) (points out') k))
              (set_vel (fst (forward_point (forward params) (points base) (points out') k))
                 (points out ! k))"
    if "s < k" "k < length (points base)" for k
  proof -
    from that have "s + 1 \<le> k \<and> k < length (points base)" and "k \<noteq> s" by auto
    from later [OF this(1)] this(2) show ?thesis by (simp add: out' out0_def)
  qed
qed

lemma applyForwardJerkFilter_next:
  assumes "applyForwardJerkFilter base s v0 a0 params out = Inr out'"
    and "s \<le> i" "Suc i < length (points base)"
  shows "vel (points out' ! Suc i) =
           fst (forward_jerk_step (forward params) (vel (points out' ! i)) (acc (points out' ! i))
                  (calcDistance2d (points base ! i) (points base ! Suc i))
                  (vel (points base ! Suc i)))"
    and "acc (points out' ! Suc i) =
           snd (forward_jerk_step (forward params) (vel (points out' ! i)) (acc (points out' ! i))
                  (calcDistance2d (points base ! i) (points base ! Suc i))
                  (vel (points base ! Suc i)))"
proof -
  from assms(2) have "s < Suc i" by simp
  note e = applyForwardJerkFilter_char(6) [OF assms(1) this assms(3)]
  show "vel (points out' ! Suc i) =
           fst (forward_jerk_step (forward params) (vel (points out' ! i)) (acc (points out' ! i))
                  (calcDistance2d (points base ! i) (points base ! Suc i))
                  (vel (points base ! Suc i)))"
    by (subst e) (simp add: forward_point_def)
  show "acc (points out' ! Suc i) =
           snd (forward_jerk_step (forward params) (vel (points out' ! i)) (acc (points out' ! i))
                  (calcDistance2d (points base ! i) (points base ! Suc i))
                  (vel (points base ! Suc i)))"
    by (subst e) (simp add: forward_point_def)
qed

lemma applyForwardJerkFilter_acc_bounds:
  assumes run: "applyForwardJerkFilter base s v0 a0 params out = Inr out'"
    and valid: "valid_forward_bounds (forward params)"
    and a0: "fwd_min_acc (forward params) \<le> a0" "a0 \<le> fwd_max_acc (forward params)"
  shows "s \<le> i \<Longrightarrow> i < length (points base) \<Longrightarrow>
         fwd_min_acc (forward params) \<le> acc (points out' ! i) \<and>
         acc (points out' ! i) \<le> fwd_max_acc (forward params)"
proof (induction i)
  case 0
  then have "s = 0" by simp
  with applyForwardJerkFilter_char(4) [OF run] a0 show ?case by simp
next
  case (Suc i)
  show ?case
  proof (cases "s = Suc i")
    case True
    with applyForwardJerkFilter_char(4) [OF run] a0 show ?thesis by simp
  next
    case False
    with Suc.prems have si: "s \<le> i" and i: "i < length (points base)" by simp_all
    from Suc.IH [OF si i] have
      lo: "fwd_min_acc (forward params) \<le> acc (points out' ! i)" and
      hi: "acc (points out' ! i) \<le> fwd_max_acc (forward params)" by simp_all
    show ?thesis
      unfolding applyForwardJerkFilter_next(2) [OF run si Suc.prems(2)]
      using forward_jerk_step_acc [OF valid calcDistance2d_nonneg lo hi] by simp
  qed
qed

text \<open>
  One pass of \<^verbatim>\<open>applyForwardJerkFilter\<close> keeps its part of the trajectory inside the
  forward bounds. For bounds that are intervals around zero jerk (\<open>min_acc \<le> max_acc\<close>,
  \<open>min_jerk \<le> 0 \<le> max_jerk\<close>), an initial acceleration inside the acceleration bounds and
  an output trajectory with at least as many points as the base, the filter returns,
  every point from the start index on has \<open>min_acc \<le> a\<^sub>i \<le> max_acc\<close>, and consecutive points
  have \<open>min_jerk * dt\<^sub>i \<le> a\<^sub>i\<^sub>+\<^sub>1 - a\<^sub>i \<le> max_jerk * dt\<^sub>i\<close>, with \<open>dt\<^sub>i\<close> the time step the filter
  used. (The product form also covers \<open>dt\<^sub>i = 0\<close>.)
\<close>

lemma applyForwardJerkFilter_respects_bounds:
  assumes valid: "valid_forward_bounds (forward params)"
    and a0: "fwd_min_acc (forward params) \<le> initial_acc"
            "initial_acc \<le> fwd_max_acc (forward params)"
    and s: "start_index < length (points output_trajectory)"
    and len: "length (points base_trajectory) \<le> length (points output_trajectory)"
  shows "\<exists>out. applyForwardJerkFilter base_trajectory start_index initial_vel initial_acc params
                  output_trajectory = Inr out \<and>
           (\<forall>i. start_index \<le> i \<and> i < length (points base_trajectory) \<longrightarrow>
                  fwd_min_acc (forward params) \<le> acc (points out ! i) \<and>
                  acc (points out ! i) \<le> fwd_max_acc (forward params)) \<and>
           (\<forall>i. start_index \<le> i \<and> Suc i < length (points base_trajectory) \<longrightarrow>
                  fwd_min_jerk (forward params) *
                    forward_dt (calcDistance2d (points base_trajectory ! i)
                                  (points base_trajectory ! Suc i)) (vel (points out ! i))
                  \<le> acc (points out ! Suc i) - acc (points out ! i) \<and>
                  acc (points out ! Suc i) - acc (points out ! i)
                  \<le> fwd_max_jerk (forward params) *
                    forward_dt (calcDistance2d (points base_trajectory ! i)
                                  (points base_trajectory ! Suc i)) (vel (points out ! i)))"
proof -
  from applyForwardJerkFilter_returns [OF s len] obtain out where
    run: "applyForwardJerkFilter base_trajectory start_index initial_vel initial_acc params
            output_trajectory = Inr out" by blast
  from valid have j: "fwd_min_jerk (forward params) \<le> fwd_max_jerk (forward params)"
    by (simp add: valid_forward_bounds_def)
  have accs: "\<forall>i. start_index \<le> i \<and> i < length (points base_trajectory) \<longrightarrow>
                  fwd_min_acc (forward params) \<le> acc (points out ! i) \<and>
                  acc (points out ! i) \<le> fwd_max_acc (forward params)"
    using applyForwardJerkFilter_acc_bounds [OF run valid a0] by blast
  have jerks: "\<forall>i. start_index \<le> i \<and> Suc i < length (points base_trajectory) \<longrightarrow>
                  fwd_min_jerk (forward params) *
                    forward_dt (calcDistance2d (points base_trajectory ! i)
                                  (points base_trajectory ! Suc i)) (vel (points out ! i))
                  \<le> acc (points out ! Suc i) - acc (points out ! i) \<and>
                  acc (points out ! Suc i) - acc (points out ! i)
                  \<le> fwd_max_jerk (forward params) *
                    forward_dt (calcDistance2d (points base_trajectory ! i)
                                  (points base_trajectory ! Suc i)) (vel (points out ! i))"
  proof (intro allI impI)
    fix i assume i: "start_index \<le> i \<and> Suc i < length (points base_trajectory)"
    then have si: "start_index \<le> i" and ib: "Suc i < length (points base_trajectory)" by simp_all
    show "fwd_min_jerk (forward params) *
                    forward_dt (calcDistance2d (points base_trajectory ! i)
                                  (points base_trajectory ! Suc i)) (vel (points out ! i))
                  \<le> acc (points out ! Suc i) - acc (points out ! i) \<and>
                  acc (points out ! Suc i) - acc (points out ! i)
                  \<le> fwd_max_jerk (forward params) *
                    forward_dt (calcDistance2d (points base_trajectory ! i)
                                  (points base_trajectory ! Suc i)) (vel (points out ! i))"
      unfolding applyForwardJerkFilter_next(2) [OF run si ib]
      using forward_jerk_step_jerk [OF j calcDistance2d_nonneg] by blast
  qed
  from run accs jerks show ?thesis by blast
qed

text \<open>
  Claim C6: every time step of the forward integration is the distance \<open>ds\<close> between the
  two base points divided by \<open>max prev_vel 1\<close>, where \<open>prev_vel\<close> is the velocity the
  filter wrote to the previous output point. The divisor is at least 1 whatever that
  velocity is (zero and negative ones included), so \<open>0 \<le> dt \<le> ds\<close>. Stated on the output,
  for each of the three places the loop body uses \<open>dt\<close>: the velocity is the previous
  velocity plus the previous acceleration times \<open>dt\<close>; the feedback jerk is the
  acceleration error divided by \<open>dt\<close>; and the acceleration is the previous acceleration
  plus the limited jerk times \<open>dt\<close>.
\<close>

theorem applyForwardJerkFilter_time_step:
  assumes s: "start_index < length (points output_trajectory)"
    and len: "length (points base_trajectory) \<le> length (points output_trajectory)"
  shows "\<exists>out. applyForwardJerkFilter base_trajectory start_index initial_vel initial_acc params
                  output_trajectory = Inr out \<and>
           (\<forall>i. start_index \<le> i \<and> Suc i < length (points base_trajectory) \<longrightarrow>
              (let prev_vel = vel (points out ! i);
                   prev_acc = acc (points out ! i);
                   ds = calcDistance2d (points base_trajectory ! i) (points base_trajectory ! Suc i);
                   dt = ds / max prev_vel 1
               in 1 \<le> max prev_vel 1 \<and> 0 \<le> dt \<and> dt \<le> ds \<and>
                  vel (points out ! Suc i) = prev_vel + prev_acc * dt \<and>
                  acc (points out ! Suc i) =
                    prev_acc +
                    max (fwd_min_jerk (forward params))
                      (min (fwd_max_jerk (forward params))
                         ((max (fwd_min_acc (forward params))
                             (min (fwd_max_acc (forward params))
                                (fwd_kp (forward params) *
                                   (vel (points base_trajectory ! Suc i) -
                                      (prev_vel + prev_acc * dt)))) - prev_acc) / dt)) * dt))"
proof -
  from applyForwardJerkFilter_returns [OF s len] obtain out where
    run: "applyForwardJerkFilter base_trajectory start_index initial_vel initial_acc params
            output_trajectory = Inr out" by blast
  have "\<forall>i. start_index \<le> i \<and> Suc i < length (points base_trajectory) \<longrightarrow>
              (let prev_vel = vel (points out ! i);
                   prev_acc = acc (points out ! i);
                   ds = calcDistance2d (points base_trajectory ! i) (points base_trajectory ! Suc i);
                   dt = ds / max prev_vel 1
               in 1 \<le> max prev_vel 1 \<and> 0 \<le> dt \<and> dt \<le> ds \<and>
                  vel (points out ! Suc i) = prev_vel + prev_acc * dt \<and>
                  acc (points out ! Suc i) =
                    prev_acc +
                    max (fwd_min_jerk (forward params))
                      (min (fwd_max_jerk (forward params))
                         ((max (fwd_min_acc (forward params))
                             (min (fwd_max_acc (forward params))
                                (fwd_kp (forward params) *
                                   (vel (points base_trajectory ! Suc i) -
                                      (prev_vel + prev_acc * dt)))) - prev_acc) / dt)) * dt)"
  proof (intro allI impI)
    fix i assume "start_index \<le> i \<and> Suc i < length (points base_trajectory)"
    then have si: "start_index \<le> i" and ib: "Suc i < length (points base_trajectory)" by simp_all
    define ds where
      "ds = calcDistance2d (points base_trajectory ! i) (points base_trajectory ! Suc i)"
    have ds0: "0 \<le> ds" unfolding ds_def by (rule calcDistance2d_nonneg)
    have dt0: "0 \<le> ds / max (vel (points out ! i)) 1"
      using forward_dt_nonneg [OF ds0, of "vel (points out ! i)"] by (simp add: forward_dt_def)
    have dt1: "ds / max (vel (points out ! i)) 1 \<le> ds"
      using forward_dt_le [OF ds0, of "vel (points out ! i)"] by (simp add: forward_dt_def)
    have v: "vel (points out ! Suc i) =
        vel (points out ! i) + acc (points out ! i) * (ds / max (vel (points out ! i)) 1)"
      unfolding applyForwardJerkFilter_next(1) [OF run si ib] ds_def
      by (simp add: forward_jerk_step_def forward_dt_def Let_def)
    have a: "acc (points out ! Suc i) =
        acc (points out ! i) +
        max (fwd_min_jerk (forward params))
          (min (fwd_max_jerk (forward params))
             ((max (fwd_min_acc (forward params))
                 (min (fwd_max_acc (forward params))
                    (fwd_kp (forward params) *
                       (vel (points base_trajectory ! Suc i) -
                          (vel (points out ! i) +
                           acc (points out ! i) * (ds / max (vel (points out ! i)) 1))))) -
               acc (points out ! i)) / (ds / max (vel (points out ! i)) 1))) *
        (ds / max (vel (points out ! i)) 1)"
      unfolding applyForwardJerkFilter_next(2) [OF run si ib] ds_def
      by (simp add: forward_jerk_step_def forward_dt_def Let_def)
    show "(let prev_vel = vel (points out ! i);
                   prev_acc = acc (points out ! i);
                   ds = calcDistance2d (points base_trajectory ! i) (points base_trajectory ! Suc i);
                   dt = ds / max prev_vel 1
               in 1 \<le> max prev_vel 1 \<and> 0 \<le> dt \<and> dt \<le> ds \<and>
                  vel (points out ! Suc i) = prev_vel + prev_acc * dt \<and>
                  acc (points out ! Suc i) =
                    prev_acc +
                    max (fwd_min_jerk (forward params))
                      (min (fwd_max_jerk (forward params))
                         ((max (fwd_min_acc (forward params))
                             (min (fwd_max_acc (forward params))
                                (fwd_kp (forward params) *
                                   (vel (points base_trajectory ! Suc i) -
                                      (prev_vel + prev_acc * dt)))) - prev_acc) / dt)) * dt)"
      unfolding Let_def ds_def [symmetric]
    proof (intro conjI)
      show "1 \<le> max (vel (points out ! i)) 1" by simp
    qed (rule dt0 dt1 v a)+
  qed
  with run show ?thesis by (intro exI conjI)
qed


text \<open>
  An instance with a negative initial velocity, \<open>- 2\<close>, and initial acceleration 1/2: the
  first step divides the distance 1 by \<open>max (- 2) 1 = 1\<close>; the velocity becomes \<open>- 3/2\<close>, the
  feedback jerk 1/2 is limited to 3/10 and the acceleration becomes 4/5. (Dividing by the
  velocity itself would give \<open>dt = - 1/2\<close>, velocity \<open>- 9/4\<close> and acceleration 13/20.)
\<close>

theorem applyForwardJerkFilter_time_step_witness:
  "0 < length (points straight3) \<and>
   length (points straight3) \<le> length (points straight3) \<and>
   (\<exists>out. applyForwardJerkFilter straight3 0 (- 2) (1 / 2) default_param straight3 = Inr out \<and>
      vel (points out ! 1) = - (3 / 2) \<and> acc (points out ! 1) = 4 / 5)"
proof -
  have h4: "0 < length (points straight3)"
    and h5: "length (points straight3) \<le> length (points straight3)"
    by (simp_all add: straight3_def)
  from applyForwardJerkFilter_time_step [OF h4 h5, of "- 2" "1 / 2" default_param]
  obtain out where c:
    "applyForwardJerkFilter straight3 0 (- 2) (1 / 2) default_param straight3 = Inr out \<and>
     (\<forall>i. 0 \<le> i \<and> Suc i < length (points straight3) \<longrightarrow>
              (let prev_vel = vel (points out ! i);
                   prev_acc = acc (points out ! i);
                   ds = calcDistance2d (points straight3 ! i) (points straight3 ! Suc i);
                   dt = ds / max prev_vel 1
               in 1 \<le> max prev_vel 1 \<and> 0 \<le> dt \<and> dt \<le> ds \<and>
                  vel (points out ! Suc i) = prev_vel + prev_acc * dt \<and>
                  acc (points out ! Suc i) =
                    prev_acc +
                    max (fwd_min_jerk (forward default_param))
                      (min (fwd_max_jerk (forward default_param))
                         ((max (fwd_min_acc (forward default_param))
                             (min (fwd_max_acc (forward default_param))
                                (fwd_kp (forward default_param) *
                                   (vel (points straight3 ! Suc i) -
                                      (prev_vel + prev_acc * dt)))) - prev_acc) / dt)) * dt))" ..
  note run = c [THEN conjunct1]
  note steps = c [THEN conjunct2]
  have l: "length (points straight3) = 3" by (simp add: straight3_def)
  have d: "calcDistance2d (points straight3 ! 0) (points straight3 ! Suc 0) = 1"
    by (simp add: straight3_def calcDistance2d_def point_at_def)
  have b1: "vel (points straight3 ! Suc 0) = 2" by (simp add: straight3_def)
  have p0: "points out ! 0 = set_acc (1 / 2) (set_vel (- 2) (points straight3 ! 0))"
    using applyForwardJerkFilter_char(4) [OF run] .
  have "0 \<le> (0::nat) \<and> Suc 0 < length (points straight3)" using l by simp
  from steps [rule_format, OF this] have
    "vel (points out ! 1) = - (3 / 2) \<and> acc (points out ! 1) = 4 / 5"
    by (simp add: Let_def d b1 p0 default_param_def)
  with run have "applyForwardJerkFilter straight3 0 (- 2) (1 / 2) default_param straight3 =
      Inr out \<and> vel (points out ! 1) = - (3 / 2) \<and> acc (points out ! 1) = 4 / 5" by simp
  then have "\<exists>out. applyForwardJerkFilter straight3 0 (- 2) (1 / 2) default_param straight3 =
      Inr out \<and> vel (points out ! 1) = - (3 / 2) \<and> acc (points out ! 1) = 4 / 5" ..
  with h4 h5 show ?thesis by simp
qed

section \<open>resampleTrajectory keeps a uniform velocity\<close>

lemma vel_resample_point [simp]: "vel (resample_point tf tp0 tp1 s) = vel tp0"
  by (simp add: resample_point_def vel_def)

lemma resample_inner_set:
  "set (resample_inner tf tp0 tp1 ds n s out) \<subseteq>
     set out \<union> {p. vel p = vel tp0}"
proof (induction n arbitrary: s out)
  case 0
  then show ?case by simp
next
  case (Suc n)
  from Suc.IH [of "s + ds" "out @ [resample_point tf tp0 tp1 s]"]
  show ?case by auto
qed

lemma resample_outer_vel:
  assumes "\<forall>p \<in> set pts. vel p = v" "length pts < 2 ^ 64" "pts \<noteq> []"
  shows "\<forall>p \<in> set out. vel p = v \<Longrightarrow>
     \<exists>out'. resample_outer tf n pts i out = Inr out' \<and> (\<forall>p \<in> set out'. vel p = v)"
proof (induction "length pts - 1 - i" arbitrary: i out)
  case 0
  have sz: "size_t_sub (length pts) 1 = length pts - 1"
    using assms size_t_sub_1 [of "length pts"] by simp
  from 0 have "\<not> i < length pts - 1" by simp
  then show ?case using 0(2)
    by (simp add: resample_outer.simps [of tf n pts i out] sz del: One_nat_def)
next
  case (Suc m)
  have sz: "size_t_sub (length pts) 1 = length pts - 1"
    using assms size_t_sub_1 [of "length pts"] by simp
  from Suc.hyps(2) have lt: "i < length pts - 1" by simp
  then have r: "i < length pts" "i + 1 < length pts" by simp_all
  from Suc.hyps(2) have m: "m = length pts - 1 - Suc i" by simp
  have v0: "vel (pts ! i) = v" using assms(1) r(1) by simp
  show ?case
  proof (cases "\<bar>calcDistance2d (pts ! i) (pts ! (i + 1))\<bar> < 1 / 1000")
    case True
    have step: "resample_outer tf n pts i out = resample_outer tf n pts (Suc i) (out @ [pts ! i])"
      using lt r True by (simp add: resample_outer.simps [of tf n pts i out] sz del: One_nat_def)
    have "\<forall>p \<in> set (out @ [pts ! i]). vel p = v" using Suc.prems v0 by simp
    from Suc.hyps(1) [OF m this] show ?thesis unfolding step .
  next
    case False
    have step: "resample_outer tf n pts i out = resample_outer tf n pts (Suc i)
        (resample_inner tf (pts ! i) (pts ! (i + 1)) (1 / real n) n 0 out)"
      using lt r False by (simp add: resample_outer.simps [of tf n pts i out] sz del: One_nat_def)
    have "\<forall>p \<in> set (resample_inner tf (pts ! i) (pts ! (i + 1)) (1 / real n) n 0 out). vel p = v"
      using resample_inner_set [of tf "pts ! i" "pts ! (i + 1)" "1 / real n" n 0 out] Suc.prems v0
      by auto
    from Suc.hyps(1) [OF m this] show ?thesis unfolding step .
  qed
qed

text \<open>
  C8: when every point of a non-empty input carries the same linear velocity \<open>v\<close>, the
  resampling returns a trajectory and every point of it carries \<open>v\<close>, for every
  \<open>num_resample\<close> (the claim's densities \<open>num_resample \<ge> 1\<close> included) and whatever the
  interpolation of the poses does. (An empty input yields no trajectory at all.)
\<close>

theorem resampleTrajectory_uniform_velocity:
  assumes "\<forall>p \<in> set (points input). vel p = v"
    and "points input \<noteq> []" and "length (points input) < 2 ^ 64"
  shows "\<exists>out. resampleTrajectory tf smoother_param input = Inr (Some out) \<and>
               (\<forall>p \<in> set (points out). vel p = v)"
proof -
  have "\<forall>p \<in> set ([] :: TrajectoryPoint list). vel p = v" by simp
  from resample_outer_vel [OF assms(1,3,2) this, of tf "num_resample (resample smoother_param)" 0]
  obtain out' where o: "resample_outer tf (num_resample (resample smoother_param))
       (points input) 0 [] = Inr out'" and v: "\<forall>p \<in> set out'. vel p = v" by blast
  from assms(1,2) have "vel (last (points input)) = v" by simp
  with o v assms(2) show ?thesis by (simp add: resampleTrajectory_def)
qed


text \<open>An instance: two points one metre apart at 5 m/s.\<close>

theorem resampleTrajectory_uniform_velocity_witness:
  "list_all (\<lambda>p. vel p = 5) (points cruise2) \<and>
   points cruise2 \<noteq> [] \<and>
   length (points cruise2) < 2 ^ 64 \<and>
   (\<exists>out. resampleTrajectory tf2_fixture default_param cruise2 = Inr (Some out) \<and>
           list_all (\<lambda>p. vel p = 5) (points out))"
proof -
  have h1: "\<forall>p \<in> set (points cruise2). vel p = 5"
    and h2: "points cruise2 \<noteq> []"
    and h3: "length (points cruise2) < 2 ^ 64"
    by (simp_all add: cruise2_def)
  from resampleTrajectory_uniform_velocity [OF h1 h2 h3, of tf2_fixture default_param]
  have "\<exists>out. resampleTrajectory tf2_fixture default_param cruise2 = Inr (Some out) \<and>
           list_all (\<lambda>p. vel p = 5) (points out)"
    unfolding list_all_iff .
  with h1 h2 h3 show ?thesis unfolding list_all_iff by (intro conjI)
qed

section \<open>apply: return value and the one-point input\<close>

lemma apply_final_true: "apply_final params iv ia ts r f = Inr (b, out) \<Longrightarrow> b"
  by (auto simp: apply_final_def split: if_splits sum.splits prod.splits)

lemma apply_targets_true:
  "apply_targets utils params iv ia ts i r f = Some (Inr (b, out)) \<Longrightarrow> b"
proof (induction utils params iv ia ts i r f rule: apply_targets.induct)
  case (1 utils params iv ia ts i r f)
  show ?case
  proof (cases "i < length ts")
    case False
    with "1.prems" have "apply_final params iv ia ts r f = Inr (b, out)"
      by (simp add: apply_targets.simps [of utils params iv ia ts i r f])
    then show ?thesis by (rule apply_final_true)
  next
    case True
    from "1.prems" True obtain st where
      st: "apply_target_step utils params iv ia ts i r f = Some (Inr st)"
      by (auto simp: apply_targets.simps [of utils params iv ia ts i r f]
          split: option.splits sum.splits)
    show ?thesis
    proof (cases st)
      case (Finish o')
      with st "1.prems" True show ?thesis
        by (simp add: apply_targets.simps [of utils params iv ia ts i r f])
    next
      case (Continue r' f')
      with st "1.prems" True have
        "apply_targets utils params iv ia ts (Suc i) r' f' = Some (Inr (b, out))"
        by (simp add: apply_targets.simps [of utils params iv ia ts i r f])
      from "1.IH" [OF True st refl Continue this] show ?thesis .
    qed
  qed
qed

lemma apply_false_iff_empty:
  "apply_smoother utils params iv ia input output = Some (Inr (False, out)) \<longleftrightarrow>
   points input = [] \<and> out = output"
proof
  assume a: "apply_smoother utils params iv ia input output = Some (Inr (False, out))"
  show "points input = [] \<and> out = output"
  proof (cases "points input = []")
    case True
    with a show ?thesis by (simp add: apply_smoother_def)
  next
    case False
    show ?thesis
    proof (cases "length (points input) = 1")
      case True
      with a False show ?thesis by (simp add: apply_smoother_def)
    next
      case l: False
      from a False l obtain ts where
        "apply_targets utils params iv ia ts 0 input input = Some (Inr (False, out))"
        by (auto simp: apply_smoother_def split: sum.splits)
      from apply_targets_true [OF this] show ?thesis by simp
    qed
  qed
next
  assume "points input = [] \<and> out = output"
  then show "apply_smoother utils params iv ia input output = Some (Inr (False, out))"
    by (simp add: apply_smoother_def)
qed

text \<open>
  C7: for an input of exactly one point, \<^verbatim>\<open>apply\<close> returns \<^verbatim>\<open>true\<close> and its output is the
  input with that one point changed in two fields only: \<^verbatim>\<open>twist.linear.x\<close> is the initial
  velocity and \<^verbatim>\<open>accel.linear.x\<close> the initial acceleration.
\<close>

theorem apply_single_point:
  assumes "points input = [p]"
  shows "apply_smoother utils params initial_vel initial_acc input output =
     Some (Inr (True,
       input\<lparr>points :=
         [p\<lparr>twist := (twist p)\<lparr>twist_linear := (twist_linear (twist p))\<lparr>vec_x := initial_vel\<rparr>\<rparr>,
            accel := (accel p)\<lparr>acc_linear := (acc_linear (accel p))\<lparr>vec_x := initial_acc\<rparr>\<rparr>\<rparr>]\<rparr>))"
  using assms by (simp add: apply_smoother_def set_vel_def set_acc_def)


text \<open>An instance: one point with velocity 7 and acceleration 2, started at 3 and 1/2.\<close>

theorem apply_single_point_witness:
  "points (trajectory_of [point_at 4 5 7 2]) = [point_at 4 5 7 2] \<and>
   apply_smoother no_profile_utils default_param 3 (1 / 2) (trajectory_of [point_at 4 5 7 2])
     (trajectory_of []) =
   Some (Inr (True, trajectory_of [point_at 4 5 3 (1 / 2)]))"
proof -
  have h: "points (trajectory_of [point_at 4 5 7 2]) = [point_at 4 5 7 2]" by simp
  from apply_single_point [OF h, of no_profile_utils default_param 3 "1 / 2" "trajectory_of []"]
  show ?thesis by (simp add: trajectory_of_def point_at_def)
qed

section \<open>The backward filter returns\<close>

lemma advance_start_index_returns:
  "target \<le> length pts \<Longrightarrow>
   \<exists>s'. advance_start_index pts tv target s i = Inr s' \<and> (s' = s \<or> (i \<le> s' \<and> s' < target))"
proof (induction "target - i" arbitrary: i)
  case 0
  then have "\<not> i < target" by simp
  then show ?case by (simp add: advance_start_index.simps [of pts tv target s i])
next
  case (Suc n)
  then have it: "i < target" and il: "i < length pts" by simp_all
  from Suc.hyps(2) have n: "n = target - Suc i" by simp
  show ?case
  proof (cases "vel (pts ! i) \<ge> tv")
    case True
    with it il show ?thesis by (simp add: advance_start_index.simps [of pts tv target s i])
  next
    case False
    with it il have step: "advance_start_index pts tv target s i =
        advance_start_index pts tv target s (Suc i)"
      by (simp add: advance_start_index.simps [of pts tv target s i])
    from Suc.hyps(1) [OF n Suc.prems] obtain s' where
      "advance_start_index pts tv target s (Suc i) = Inr s'"
      "s' = s \<or> (Suc i \<le> s' \<and> s' < target)" by blast
    then show ?thesis unfolding step by auto
  qed
qed

lemma dist_to_target_loop_returns:
  "i < length pts \<Longrightarrow> length dtt = length pts \<Longrightarrow>
   \<exists>dtt'. dist_to_target_loop pts s i d dtt = Inr dtt' \<and> length dtt' = length pts"
proof (induction i arbitrary: d dtt)
  case 0
  then show ?case by (simp add: dist_to_target_loop.simps [of pts s 0 d dtt])
next
  case (Suc i)
  show ?case
  proof (cases "Suc i > s")
    case False
    with Suc.prems show ?thesis by (simp add: dist_to_target_loop.simps [of pts s "Suc i" d dtt])
  next
    case True
    define d' where "d' = d + calcDistance2d (pts ! i) (pts ! Suc i)"
    from Suc.prems have il: "i < length pts" "i < length dtt" by simp_all
    have step: "dist_to_target_loop pts s (Suc i) d dtt =
        dist_to_target_loop pts s i d' (dtt[i := d'])"
      using True Suc.prems il by (simp add: dist_to_target_loop.simps [of pts s "Suc i" d dtt] d'_def)
    have "length (dtt[i := d']) = length pts" using Suc.prems by simp
    from Suc.IH [OF il(1) this] show ?thesis unfolding step .
  qed
qed

lemma calcEnoughDistForDecel_returns:
  assumes "s < length (points tr)" "s < length dtt"
  shows "\<exists>r. calcEnoughDistForDecel utils tr s tv pj params dtt = Inr r"
  using assms by (auto simp: calcEnoughDistForDecel_def Let_def split: prod.splits)

lemma jerk_scan_returns:
  assumes leaves: "planning_jerk_leaves (double_add (arith utils))
                     (bwd_span_jerk (backward params))
                     (bwd_min_jerk (backward params) - ep_stop) fuel pj"
    and s: "s < length (points tr)" "s < length dtt"
  shows "\<exists>r. jerk_scan utils tr s tv params dtt pj = Some (Inr r) \<and>
           (\<forall>pj' ty tms. r = Some (pj', ty, tms) \<longrightarrow>
              (\<exists>sd. calcEnoughDistForDecel utils tr s tv pj' params dtt = Inr (True, ty, tms, sd)))"
  using leaves
proof (induction fuel arbitrary: pj)
  case 0
  then have "\<not> pj > bwd_min_jerk (backward params) - ep_stop" by simp
  then show ?case by (subst jerk_scan.simps) simp
next
  case (Suc k)
  define lim where "lim = bwd_min_jerk (backward params) - ep_stop"
  show ?case
  proof (cases "pj > lim")
    case False
    then show ?thesis unfolding lim_def by (subst jerk_scan.simps) simp
  next
    case True
    from calcEnoughDistForDecel_returns [OF s] obtain r where
      r: "calcEnoughDistForDecel utils tr s tv pj params dtt = Inr r" by blast
    show ?thesis
    proof (cases "fst r")
      case ok: True
      obtain b ty tms sd where rr: "r = (b, ty, tms, sd)" by (cases r) auto
      with ok have "r = (True, ty, tms, sd)" by simp
      with r True show ?thesis unfolding lim_def by (subst jerk_scan.simps) simp
    next
      case no: False
      have step: "jerk_scan utils tr s tv params dtt pj =
          jerk_scan utils tr s tv params dtt
            (double_add (arith utils) pj (bwd_span_jerk (backward params)))"
        using True r no unfolding lim_def by (subst jerk_scan.simps) simp
      from Suc.prems True have
        "planning_jerk_leaves (double_add (arith utils)) (bwd_span_jerk (backward params))
           (bwd_min_jerk (backward params) - ep_stop) k
           (double_add (arith utils) pj (bwd_span_jerk (backward params)))"
        by (simp add: lim_def)
      from Suc.IH [OF this] show ?thesis unfolding step .
    qed
  qed
qed

lemma scan_start_index_returns:
  assumes span: "jerk_scan_ends utils params fuel"
    and t: "target < length (points tr)" and s0: "s0 < target"
    and inv: "backward_output_ok utils params tr target tv outp"
  shows "\<exists>outp'. scan_start_index utils params tr target tv outp s0 = Some (Inr outp') \<and>
           backward_output_ok utils params tr target tv outp'"
proof -
  define n where "n = length (points tr)"
  from t have tl: "target \<le> length (points tr)" by simp
  from advance_start_index_returns [OF tl, of tv s0 s0] s0 obtain s where
    adv: "advance_start_index (points tr) tv target s0 s0 = Inr s" and st: "s < target"
    by auto
  have "length ((replicate (length (points tr)) (0::real))[target := 0]) = length (points tr)"
    by simp
  from dist_to_target_loop_returns [OF t this, of s 0] obtain dtt where
    dl: "dist_to_target_loop (points tr) s target 0
           ((replicate (length (points tr)) 0)[target := 0]) = Inr dtt"
    and dn: "length dtt = length (points tr)" by blast
  from st t dn have sr: "s < length (points tr)" "s < length dtt" by simp_all
  from jerk_scan_returns [OF span [unfolded jerk_scan_ends_def] sr, of tv]
  obtain r where
    js: "jerk_scan utils tr s tv params dtt (bwd_start_jerk (backward params)) = Some (Inr r)"
    and found: "\<And>pj' ty tms. r = Some (pj', ty, tms) \<Longrightarrow>
              \<exists>sd. calcEnoughDistForDecel utils tr s tv pj' params dtt = Inr (True, ty, tms, sd)"
    by blast
  show ?thesis
  proof (cases r)
    case None
    with adv dl js t inv show ?thesis by (simp add: scan_start_index_def)
  next
    case (Some x)
    obtain pj ty tms where x: "x = (pj, ty, tms)" by (cases x) auto
    from found [of pj ty tms] Some x obtain sd where
      ce: "calcEnoughDistForDecel utils tr s tv pj params dtt = Inr (True, ty, tms, sd)" by auto
    show ?thesis
    proof (cases "pj \<ge> output_planning_jerk outp")
      case True
      have "backward_output_ok utils params tr target tv
              \<lparr>output_planning_jerk = pj, output_start_index = s,
               output_dist_to_target = dtt, output_type = ty, output_times = tms\<rparr>"
        using st dn ce by (simp add: backward_output_ok_def)
      with adv dl js t Some x True show ?thesis by (simp add: scan_start_index_def)
    next
      case False
      with adv dl js t Some x inv show ?thesis by (simp add: scan_start_index_def)
    qed
  qed
qed

lemma scan_start_indices_returns:
  assumes span: "jerk_scan_ends utils params fuel"
    and t: "target < length (points tr)"
  shows "\<forall>s \<in> set ss. s < target \<Longrightarrow> backward_output_ok utils params tr target tv outp \<Longrightarrow>
     \<exists>outp'. scan_start_indices utils params tr target tv ss outp = Some (Inr outp') \<and>
           backward_output_ok utils params tr target tv outp'"
proof (induction ss arbitrary: outp)
  case Nil
  then show ?case by simp
next
  case (Cons s ss)
  from Cons.prems(1) have s: "s < target" and rest: "\<forall>s \<in> set ss. s < target" by simp_all
  from scan_start_index_returns [OF span t s Cons.prems(2)] obtain o1 where
    o1: "scan_start_index utils params tr target tv outp s = Some (Inr o1)"
    and i1: "backward_output_ok utils params tr target tv o1" by blast
  from Cons.IH [OF rest i1] o1 show ?case by simp
qed

lemma search_decel_start_returns:
  assumes ok: "calcEnoughDistForDecel utils tr s tv pj params dtt = Inr (True, ty, tms, sd)"
    and len: "length dtt = length (points tr)"
  shows "s \<le> i \<Longrightarrow> i < length (points tr) \<Longrightarrow>
     \<exists>d ty' tms'. search_decel_start utils tr tv pj params dtt s i = Inr (d, ty', tms') \<and>
        s \<le> d \<and> d \<le> i"
proof (induction i)
  case 0
  then have "s = 0" by simp
  with ok show ?case by (simp add: search_decel_start.simps [of utils tr tv pj params dtt 0 0])
next
  case (Suc i)
  from Suc.prems len have "Suc i < length (points tr)" "Suc i < length dtt" by simp_all
  from calcEnoughDistForDecel_returns [OF this] obtain r where
    r: "calcEnoughDistForDecel utils tr (Suc i) tv pj params dtt = Inr r" by blast
  show ?case
  proof (cases "fst r")
    case True
    with r show ?thesis
      by (simp add: search_decel_start.simps [of utils tr tv pj params dtt s "Suc i"] Suc.prems)
  next
    case False
    have ne: "s \<noteq> Suc i"
    proof
      assume "s = Suc i"
      with ok r False show False by simp
    qed
    with Suc.prems have si: "s \<le> i" by simp
    from Suc.prems have "i < length (points tr)" by simp
    from Suc.IH [OF si this] obtain d ty' tms' where
      "search_decel_start utils tr tv pj params dtt s i = Inr (d, ty', tms')" "s \<le> d" "d \<le> i"
      by blast
    with r False si show ?thesis
      by (simp add: search_decel_start.simps [of utils tr tv pj params dtt s "Suc i"])
  qed
qed

lemma backward_output_ok_init:
  "backward_output_ok utils params tr target tv BackwardOutput_init"
  by (simp add: backward_output_ok_def BackwardOutput_init_def)

lemma applyDecelVelocityFilter_returns:
  assumes "keeps_size utils" "d < length (points tr)"
  shows "\<exists>ok tr'. applyDecelVelocityFilter utils d tv pj params ty tms tr = Inr (ok, tr') \<and>
           length (points tr') = length (points tr)"
proof -
  obtain ok tr' where c: "calcStopVelocityWithConstantJerkAccLimit utils (vel (points tr ! d))
      (acc (points tr ! d)) \<bar>pj\<bar> pj (calcMinAcc (backward params) pj) tv ty tms d tr = (ok, tr')"
    by (cases "calcStopVelocityWithConstantJerkAccLimit utils (vel (points tr ! d))
      (acc (points tr ! d)) \<bar>pj\<bar> pj (calcMinAcc (backward params) pj) tv ty tms d tr") auto
  from assms(1) have "length (points (snd (calcStopVelocityWithConstantJerkAccLimit utils
      (vel (points tr ! d)) (acc (points tr ! d)) \<bar>pj\<bar> pj (calcMinAcc (backward params) pj)
      tv ty tms d tr))) = length (points tr)"
    unfolding keeps_size_def by blast
  with c have "length (points tr') = length (points tr)" by simp
  with c assms(2) show ?thesis by (simp add: applyDecelVelocityFilter_def)
qed

lemma applyBackwardDecelFilter_returns:
  assumes span: "jerk_scan_ends utils params fuel"
    and keep: "keeps_size utils"
    and t: "target < length (points tr)"
    and ss: "\<forall>s \<in> set ss. s < target"
  shows "\<exists>ok tr'. applyBackwardDecelFilter utils ss target tv params tr = Some (Inr (ok, tr')) \<and>
           length (points tr') = length (points tr)"
proof -
  from scan_start_indices_returns [OF span t ss backward_output_ok_init] obtain outp where
    sc: "scan_start_indices utils params tr target tv ss BackwardOutput_init = Some (Inr outp)"
    and inv: "backward_output_ok utils params tr target tv outp" by blast
  show ?thesis
  proof (cases "output_planning_jerk outp = - 100")
    case True
    with sc have "applyBackwardDecelFilter utils ss target tv params tr = Some (Inr (False, tr))"
      by (simp add: applyBackwardDecelFilter_def)
    then show ?thesis by blast
  next
    case False
    with inv obtain sd where
      st: "output_start_index outp < target" and
      dn: "length (output_dist_to_target outp) = length (points tr)" and
      ce: "calcEnoughDistForDecel utils tr (output_start_index outp) tv
             (output_planning_jerk outp) params (output_dist_to_target outp) =
           Inr (True, output_type outp, output_times outp, sd)"
      unfolding backward_output_ok_def by blast
    have "\<exists>d ty tms.
        (if output_planning_jerk outp = bwd_start_jerk (backward params) then
           (if target = 0 then Inl OutOfRange
            else if target - 1 \<ge> output_start_index outp then
              search_decel_start utils tr tv (output_planning_jerk outp) params
                (output_dist_to_target outp) (output_start_index outp) (target - 1)
            else Inr (output_start_index outp, output_type outp, output_times outp))
         else Inr (output_start_index outp, output_type outp, output_times outp)) =
        Inr (d, ty, tms) \<and> d < target"
    proof (cases "output_planning_jerk outp = bwd_start_jerk (backward params)")
      case False
      with st show ?thesis by simp
    next
      case True
      from st have a: "output_start_index outp \<le> target - 1" "target \<noteq> 0" by simp_all
      from t have b: "target - 1 < length (points tr)" by simp
      from search_decel_start_returns [OF ce dn a(1) b] obtain d ty' tms' where
        "search_decel_start utils tr tv (output_planning_jerk outp) params
           (output_dist_to_target outp) (output_start_index outp) (target - 1) = Inr (d, ty', tms')"
        "d \<le> target - 1" by blast
      with True a show ?thesis by auto
    qed
    then obtain d ty tms where
      sel: "(if output_planning_jerk outp = bwd_start_jerk (backward params) then
           (if target = 0 then Inl OutOfRange
            else if target - 1 \<ge> output_start_index outp then
              search_decel_start utils tr tv (output_planning_jerk outp) params
                (output_dist_to_target outp) (output_start_index outp) (target - 1)
            else Inr (output_start_index outp, output_type outp, output_times outp))
         else Inr (output_start_index outp, output_type outp, output_times outp)) =
        Inr (d, ty, tms)" and dt: "d < target" by blast
    from dt t have "d < length (points tr)" by simp
    from applyDecelVelocityFilter_returns [OF keep this, of tv "output_planning_jerk outp" params ty tms]
    obtain ok tr' where
      "applyDecelVelocityFilter utils d tv (output_planning_jerk outp) params ty tms tr = Inr (ok, tr')"
      "length (points tr') = length (points tr)" by blast
    with sc False sel show ?thesis
      unfolding applyBackwardDecelFilter_def by simp
  qed
qed

section \<open>apply returns\<close>

lemma minima_candidates_strict:
  "sorted_wrt (<) (map fst (minima_candidates pts ci))"
proof -
  have m: "map (fst \<circ> (\<lambda>i. (i, vel (pts ! i)))) xs = xs" for xs :: "nat list"
    by (induction xs) auto
  have s: "sorted_wrt (<) (filter (is_local_minimum pts) [max 1 ci ..< length pts - 1])"
    by (rule sorted_wrt_filter) simp
  show ?thesis
    using s by (auto simp: minima_candidates_def m sorted_wrt_append)
qed

lemma minima_candidates_range:
  "x \<in> set (minima_candidates pts ci) \<Longrightarrow> 2 \<le> length pts \<Longrightarrow>
   1 \<le> fst x \<and> fst x < length pts"
  by (auto simp: minima_candidates_def split: if_splits)

lemma local_minima_targets_ok:
  assumes "2 \<le> length pts"
  shows "targets_ok (length pts) (local_minima_targets pts ci)"
proof -
  define cs where "cs = minima_candidates pts ci"
  define ks where "ks = filter (\<lambda>k. \<not> is_coalesced cs k) [0 ..< length cs]"
  have ts: "local_minima_targets pts ci = map (\<lambda>k. cs ! k) ks"
    by (simp add: local_minima_targets_def cs_def ks_def Let_def)
  have ksl: "\<forall>k \<in> set ks. k < length cs" by (auto simp: ks_def)
  have kss: "sorted_wrt (<) ks" unfolding ks_def by (rule sorted_wrt_filter) simp
  have strict: "sorted_wrt (<) (map fst cs)" unfolding cs_def by (rule minima_candidates_strict)
  have "sorted_wrt (\<lambda>x y. fst (cs ! x) < fst (cs ! y)) ks"
  proof (rule sorted_wrt_mono_rel [OF _ kss])
    fix x y assume "x \<in> set ks" "y \<in> set ks" "x < y"
    with ksl have "x < y" "y < length (map fst cs)" by simp_all
    from sorted_wrt_nth_less [OF strict this] \<open>x < y\<close> \<open>y < length (map fst cs)\<close>
    show "fst (cs ! x) < fst (cs ! y)" by simp
  qed
  then have a: "sorted_wrt (<) (map fst (local_minima_targets pts ci))"
    by (simp add: ts sorted_wrt_map)
  have b: "\<forall>t \<in> set (local_minima_targets pts ci). 1 \<le> fst t \<and> fst t < length pts"
  proof
    fix t assume "t \<in> set (local_minima_targets pts ci)"
    then obtain k where "k \<in> set ks" "t = cs ! k" by (auto simp: ts)
    with ksl have "t \<in> set cs" by simp
    then show "1 \<le> fst t \<and> fst t < length pts"
      unfolding cs_def using assms by (rule minima_candidates_range)
  qed
  from a b show ?thesis by (simp add: targets_ok_def)
qed

lemma targets_ok_nth:
  assumes "targets_ok n ts" "k < length ts"
  shows "1 \<le> fst (ts ! k)" "fst (ts ! k) < n"
  using assms by (auto simp: targets_ok_def)

lemma targets_ok_less:
  assumes "targets_ok n ts" "j < k" "k < length ts"
  shows "fst (ts ! j) < fst (ts ! k)"
proof -
  from assms(1) have s: "sorted_wrt (<) (map fst ts)" by (simp add: targets_ok_def)
  from assms(3) have "k < length (map fst ts)" by simp
  from sorted_wrt_nth_less [OF s assms(2) this] assms show ?thesis by simp
qed

lemma fwd_start_returns:
  assumes ok: "targets_ok n ts" and i: "i < length ts" and f: "length (points f) = n"
  shows "\<exists>b v a. fwd_start ts f iv ia i = Inr (b, v, a) \<and> b < fst (ts ! i)"
proof (cases "i = 0")
  case True
  with targets_ok_nth(1) [OF ok i] show ?thesis by (simp add: fwd_start_def)
next
  case False
  with i have p: "i - 1 < length ts" "i - 1 < i" by simp_all
  from targets_ok_nth(2) [OF ok p(1)] f have "fst (ts ! (i - 1)) < length (points f)" by simp
  with False p targets_ok_less [OF ok p(2) i] show ?thesis by (simp add: fwd_start_def)
qed

lemma bwd_start_search_returns:
  assumes ok: "targets_ok n ts" and f: "length (points f) = n"
  shows "i < length ts \<Longrightarrow>
     \<exists>b v a. bwd_start_search ts f iv ia i = Inr (b, v, a) \<and> b < fst (ts ! i)"
proof (induction i)
  case 0
  with targets_ok_nth(1) [OF ok 0] show ?case by simp
next
  case (Suc j)
  then have j: "j < length ts" by simp
  have lt: "fst (ts ! j) < fst (ts ! Suc j)"
    by (rule targets_ok_less [OF ok _ Suc.prems]) simp
  show ?case
  proof (cases "snd (ts ! j) < snd (ts ! Suc j)")
    case True
    from targets_ok_nth(2) [OF ok j] f have "fst (ts ! j) < length (points f)" by simp
    with True j Suc.prems lt show ?thesis by simp
  next
    case False
    from Suc.IH [OF j] obtain b v a where
      "bwd_start_search ts f iv ia j = Inr (b, v, a)" "b < fst (ts ! j)" by blast
    with False j Suc.prems lt show ?thesis by simp
  qed
qed

lemma forward_filter_keeps_length:
  assumes "s < length (points f)" "length (points r) \<le> length (points f)"
  shows "\<exists>f'. applyForwardJerkFilter r s v a params f = Inr f' \<and>
           length (points f') = length (points f)"
proof -
  from applyForwardJerkFilter_returns [OF assms] obtain f' where
    r: "applyForwardJerkFilter r s v a params f = Inr f'" by blast
  from applyForwardJerkFilter_char(2) [OF r] r show ?thesis by simp
qed

lemma decel_fallback_returns:
  assumes n: "2 \<le> n" "n < 2 ^ 64"
    and r: "length (points r) = n" and f: "length (points f) = n"
    and b: "bs < t" and t: "t < n"
  shows "\<exists>st. decel_fallback params bs bv ba t tv r f = Inr st \<and>
           (\<forall>r' f'. st = Continue r' f' \<longrightarrow> length (points r') = n \<and> length (points f') = n)"
proof (cases "\<bar>tv\<bar> < ep_stop")
  case True
  have sz: "size_t_sub (length (points f)) 1 = n - 1"
    using size_t_sub_1 [of n] n f by simp
  have "n - 1 < length (points f)" using n f by simp
  from applyMaxVelocity_in_range [OF this, of 0 bs] obtain x where
    "applyMaxVelocity 0 bs (n - 1) f = Inr x" by blast
  with True sz show ?thesis by (simp add: decel_fallback_def)
next
  case False
  have "t < length (points r)" using t r by simp
  from applyMaxVelocity_in_range [OF this, of tv bs] obtain x where
    x: "applyMaxVelocity tv bs t r = Inr x" and xl: "length (points (snd x)) = length (points r)"
    by blast
  have "bs < length (points f)" "length (points (snd x)) \<le> length (points f)"
    using b t f r xl by simp_all
  from forward_filter_keeps_length [OF this, of bv ba params] obtain f' where
    "applyForwardJerkFilter (snd x) bs bv ba params f = Inr f'"
    "length (points f') = length (points f)" by blast
  with False x xl r f show ?thesis by (simp add: decel_fallback_def)
qed

lemma apply_target_step_returns:
  assumes span: "jerk_scan_ends utils params fuel"
    and keep: "keeps_size utils"
    and n: "2 \<le> n" "n < 2 ^ 64"
    and ok: "targets_ok n ts" and i: "i < length ts"
    and r: "length (points r) = n" and f: "length (points f) = n"
  shows "\<exists>st. apply_target_step utils params iv ia ts i r f = Some (Inr st) \<and>
           (\<forall>r' f'. st = Continue r' f' \<longrightarrow> length (points r') = n \<and> length (points f') = n)"
proof -
  from fwd_start_returns [OF ok i f, of iv ia] obtain fs fv fa where
    fw: "fwd_start ts f iv ia i = Inr (fs, fv, fa)" and fst: "fs < fst (ts ! i)" by blast
  note tn = targets_ok_nth(2) [OF ok i]
  have "fs < length (points f)" "length (points r) \<le> length (points f)"
    using fst tn f r by simp_all
  from forward_filter_keeps_length [OF this, of fv fa params] obtain f1 where
    f1: "applyForwardJerkFilter r fs fv fa params f = Inr f1"
    and f1l: "length (points f1) = n" using f by auto
  from bwd_start_search_returns [OF ok f1l i, of iv ia] obtain bs bv ba where
    bw: "bwd_start_search ts f1 iv ia i = Inr (bs, bv, ba)" and bst: "bs < fst (ts ! i)" by blast
  obtain t tv where ti: "ts ! i = (t, tv)" by (cases "ts ! i") auto
  with i have at: "at_vec ts i = Inr (t, tv)" by simp
  from ti fst bst tn have lt: "fs < t" "bs < t" "t < n" by simp_all
  define ss where "ss = (if bs \<noteq> fs then [bs, fs] else [bs])"
  have "\<forall>s \<in> set ss. s < t" using lt by (simp add: ss_def)
  moreover have "t < length (points f1)" using lt f1l by simp
  ultimately obtain okb f2 where
    bd: "applyBackwardDecelFilter utils ss t tv params f1 = Some (Inr (okb, f2))"
    and f2l: "length (points f2) = n"
    using applyBackwardDecelFilter_returns [OF span keep, of t f1 ss tv] f1l by auto
  show ?thesis
  proof (cases okb)
    case True
    with fw f1 bw at bd r f2l show ?thesis
      by (simp add: apply_target_step_def ss_def)
  next
    case False
    from decel_fallback_returns [OF n r f2l lt(2,3), of params bv ba tv] obtain st where
      "decel_fallback params bs bv ba t tv r f2 = Inr st"
      "\<forall>r' f'. st = Continue r' f' \<longrightarrow> length (points r') = n \<and> length (points f') = n"
      by blast
    with False fw f1 bw at bd show ?thesis
      by (simp add: apply_target_step_def ss_def)
  qed
qed

lemma apply_final_returns:
  assumes ok: "targets_ok n ts" and n: "2 \<le> n"
    and r: "length (points r) = n" and f: "length (points f) = n"
  shows "\<exists>out. apply_final params iv ia ts r f = Inr (True, out)"
proof -
  have "\<exists>s v a. (if ts = [] then Inr (0, iv, ia)
            else (case at_vec (points f) (fst (last ts)) of
                    Inl e \<Rightarrow> Inl e
                  | Inr p \<Rightarrow> Inr (fst (last ts), vel p, acc p))) = Inr (s, v, a) \<and> s < n"
  proof (cases "ts = []")
    case True
    with n show ?thesis by simp
  next
    case False
    then have "last ts \<in> set ts" by simp
    with ok have "fst (last ts) < n" by (auto simp: targets_ok_def)
    with False f show ?thesis by simp
  qed
  then obtain s v a where
    sel: "(if ts = [] then Inr (0, iv, ia)
            else (case at_vec (points f) (fst (last ts)) of
                    Inl e \<Rightarrow> Inl e
                  | Inr p \<Rightarrow> Inr (fst (last ts), vel p, acc p))) = Inr (s, v, a)"
    and s: "s < n" by blast
  have "s < length (points f)" "length (points r) \<le> length (points f)" using s r f by simp_all
  from applyForwardJerkFilter_returns [OF this, of v a params] obtain out where
    "applyForwardJerkFilter r s v a params f = Inr out" by blast
  with sel show ?thesis unfolding apply_final_def by simp
qed

lemma apply_targets_returns:
  assumes span: "jerk_scan_ends utils params fuel"
    and keep: "keeps_size utils"
    and n: "2 \<le> n" "n < 2 ^ 64"
    and ok: "targets_ok n ts"
  shows "length (points r) = n \<Longrightarrow> length (points f) = n \<Longrightarrow>
     \<exists>out. apply_targets utils params iv ia ts i r f = Some (Inr (True, out))"
proof (induction "length ts - i" arbitrary: i r f)
  case 0
  then have "\<not> i < length ts" by simp
  with apply_final_returns [OF ok n(1) "0.prems", of params iv ia] show ?case
    by (simp add: apply_targets.simps [of utils params iv ia ts i r f])
next
  case (Suc k)
  then have i: "i < length ts" by simp
  from apply_target_step_returns [OF span keep n ok i Suc.prems, of iv ia] obtain st where
    st: "apply_target_step utils params iv ia ts i r f = Some (Inr st)" and
    c: "\<forall>r' f'. st = Continue r' f' \<longrightarrow> length (points r') = n \<and> length (points f') = n"
    by blast
  show ?case
  proof (cases st)
    case (Finish out)
    with st i show ?thesis by (simp add: apply_targets.simps [of utils params iv ia ts i r f])
  next
    case (Continue r' f')
    with c have l: "length (points r') = n" "length (points f') = n" by simp_all
    from Suc.hyps(2) have k: "k = length ts - Suc i" by simp
    from Suc.hyps(1) [OF k l] Continue st i show ?thesis
      by (simp add: apply_targets.simps [of utils params iv ia ts i r f])
  qed
qed

lemma apply_returns_true:
  assumes span: "jerk_scan_ends utils params fuel"
    and keep: "keeps_size utils"
    and ne: "points input \<noteq> []" and fits: "length (points input) \<le> 2 ^ 32"
  shows "\<exists>out. apply_smoother utils params iv ia input output = Some (Inr (True, out))"
proof (cases "length (points input) = 1")
  case True
  with ne show ?thesis by (simp add: apply_smoother_def)
next
  case False
  with ne have two: "2 \<le> length (points input)"
    by (cases "points input") (auto simp: Suc_le_eq)
  from fits have n64: "length (points input) < 2 ^ 64" by simp
  have ts: "searchDecelTargetIndices input 0 [] = Inr (local_minima_targets (points input) 0)"
    using searchDecelTargetIndices_eq [OF two fits, of 0 "[]"] by simp
  from apply_targets_returns [OF span keep two n64 local_minima_targets_ok [OF two] refl refl]
  obtain out where "apply_targets utils params iv ia (local_minima_targets (points input) 0) 0
      input input = Some (Inr (True, out))" by blast
  with ne False ts show ?thesis by (simp add: apply_smoother_def)
qed

section \<open>apply: when it returns, and what\<close>

lemma never_enough_calcEnough:
  assumes "never_enough utils" "calcEnoughDistForDecel utils tr s tv pj params dtt = Inr r"
  shows "fst r = False"
  using assms unfolding never_enough_def calcEnoughDistForDecel_def
  by (auto simp: Let_def case_prod_beta split: sum.splits)

lemma jerk_scan_Some_bound:
  assumes ne: "never_enough utils0"
    and span: "\<forall>x. x \<le> double_add (arith utils0) x (bwd_span_jerk (backward params0))"
    and run: "jerk_scan utils tr s tv params dtt pj = Some y"
  shows "utils = utils0 \<and> params = params0 \<and> s < length (points tr) \<and> s < length dtt \<longrightarrow>
     pj \<le> bwd_min_jerk (backward params0) - ep_stop"
proof (rule jerk_scan.raw_induct [where P = "\<lambda>utils tr s tv params dtt pj y.
     utils = utils0 \<and> params = params0 \<and> s < length (points tr) \<and> s < length dtt \<longrightarrow>
     pj \<le> bwd_min_jerk (backward params0) - ep_stop", OF _ run])
  fix scan utils tr s tv params dtt pj y
  assume IH: "\<And>utils tr s tv params dtt pj y. scan utils tr s tv params dtt pj = Some y \<Longrightarrow>
     utils = utils0 \<and> params = params0 \<and> s < length (points tr) \<and> s < length dtt \<longrightarrow>
     pj \<le> bwd_min_jerk (backward params0) - ep_stop"
    and body: "(if bwd_min_jerk (backward params) - ep_stop < pj
      then case calcEnoughDistForDecel utils tr s tv pj params dtt of
           Inl e \<Rightarrow> Some (Inl e)
           | Inr r \<Rightarrow>
               if fst r
               then Some (Inr (Some (pj, fst (snd r), fst (snd (snd r)))))
               else scan utils tr s tv params dtt
                      (double_add (arith utils) pj (bwd_span_jerk (backward params)))
      else Some (Inr None)) = Some y"
  show "utils = utils0 \<and> params = params0 \<and> s < length (points tr) \<and> s < length dtt \<longrightarrow>
     pj \<le> bwd_min_jerk (backward params0) - ep_stop"
  proof (intro impI)
    assume a: "utils = utils0 \<and> params = params0 \<and> s < length (points tr) \<and> s < length dtt"
    show "pj \<le> bwd_min_jerk (backward params0) - ep_stop"
    proof (rule ccontr)
      assume "\<not> pj \<le> bwd_min_jerk (backward params0) - ep_stop"
      then have gt: "pj > bwd_min_jerk (backward params) - ep_stop" using a by simp
      from a calcEnoughDistForDecel_returns [of s tr dtt utils tv pj params] obtain r where
        r: "calcEnoughDistForDecel utils tr s tv pj params dtt = Inr r" by blast
      from never_enough_calcEnough [OF _ r] ne a have "fst r = False" by simp
      with body gt r have
        "scan utils tr s tv params dtt
           (double_add (arith utils) pj (bwd_span_jerk (backward params))) = Some y"
        by simp
      from IH [OF this] a have
        "double_add (arith utils0) pj (bwd_span_jerk (backward params0))
           \<le> bwd_min_jerk (backward params0) - ep_stop"
        by simp
      with span [rule_format, of pj] gt a show False by simp
    qed
  qed
qed

lemma jerk_scan_diverges:
  assumes "never_enough utils"
    and "\<forall>x. x \<le> double_add (arith utils) x (bwd_span_jerk (backward params))"
    and "s < length (points tr)" "s < length dtt"
    and "pj > bwd_min_jerk (backward params) - ep_stop"
  shows "jerk_scan utils tr s tv params dtt pj = None"
proof (cases "jerk_scan utils tr s tv params dtt pj")
  case None
  then show ?thesis .
next
  case (Some y)
  from jerk_scan_Some_bound [OF assms(1,2) Some] assms(3,4,5) show ?thesis by simp
qed


lemma scan_start_index_diverges:
  assumes ne: "never_enough utils"
    and span: "\<forall>x. x \<le> double_add (arith utils) x (bwd_span_jerk (backward params))"
    and sj: "bwd_start_jerk (backward params) > bwd_min_jerk (backward params) - ep_stop"
    and t: "target < length (points tr)" and s0: "s0 < target"
  shows "scan_start_index utils params tr target tv outp s0 = None"
proof -
  from t have tl: "target \<le> length (points tr)" by simp
  from advance_start_index_returns [OF tl, of tv s0 s0] s0 obtain s where
    adv: "advance_start_index (points tr) tv target s0 s0 = Inr s" and st: "s < target"
    by auto
  have "length ((replicate (length (points tr)) (0::real))[target := 0]) = length (points tr)"
    by simp
  from dist_to_target_loop_returns [OF t this, of s 0] obtain dtt where
    dl: "dist_to_target_loop (points tr) s target 0
           ((replicate (length (points tr)) 0)[target := 0]) = Inr dtt"
    and dn: "length dtt = length (points tr)" by blast
  from st t dn have sr: "s < length (points tr)" "s < length dtt" by simp_all
  from jerk_scan_diverges [OF ne span sr sj]
  have "jerk_scan utils tr s tv params dtt (bwd_start_jerk (backward params)) = None" .
  with adv dl t show ?thesis by (simp add: scan_start_index_def)
qed

lemma apply_never_returns:
  assumes ne: "never_enough utils"
    and span: "\<forall>x. x \<le> double_add (arith utils) x (bwd_span_jerk (backward params))"
    and sj: "bwd_start_jerk (backward params) > bwd_min_jerk (backward params) - ep_stop"
    and two: "2 \<le> length (points input)" and fits: "length (points input) \<le> 2 ^ 32"
    and tgt: "local_minima_targets (points input) 0 \<noteq> []"
  shows "apply_smoother utils params iv ia input output = None"
proof -
  define ts where "ts = local_minima_targets (points input) 0"
  define n where "n = length (points input)"
  have ok: "targets_ok n ts" unfolding ts_def n_def by (rule local_minima_targets_ok [OF two])
  have i: "0 < length ts" using tgt by (simp add: ts_def)
  have tsr: "searchDecelTargetIndices input 0 [] = Inr ts"
    using searchDecelTargetIndices_eq [OF two fits, of 0 "[]"] by (simp add: ts_def)
  obtain t tv where ti: "ts ! 0 = (t, tv)" by (cases "ts ! 0") auto
  with i have at: "at_vec ts 0 = Inr (t, tv)" by simp
  from targets_ok_nth [OF ok i] ti have t: "1 \<le> t" "t < n" by simp_all
  have "0 < length (points input)" "length (points input) \<le> length (points input)"
    using two by (simp_all del: length_greater_0_conv)
  from forward_filter_keeps_length [OF this, of iv ia params] obtain f1 where
    f1: "applyForwardJerkFilter input 0 iv ia params input = Inr f1"
    and f1l: "length (points f1) = n" by (auto simp: n_def)
  have "scan_start_index utils params f1 t tv BackwardOutput_init 0 = None"
    by (rule scan_start_index_diverges [OF ne span sj]) (use t f1l in simp_all)
  then have "applyBackwardDecelFilter utils [0] t tv params f1 = None"
    by (simp add: applyBackwardDecelFilter_def)
  with f1 at have "apply_target_step utils params iv ia ts 0 input input = None"
    by (simp add: apply_target_step_def fwd_start_def)
  with i have "apply_targets utils params iv ia ts 0 input input = None"
    by (simp add: apply_targets.simps [of utils params iv ia ts 0 input input])
  moreover have "points input \<noteq> []"
  proof
    assume "points input = []"
    with two show False by simp
  qed
  moreover from two have "length (points input) \<noteq> 1" by simp
  ultimately show ?thesis using tsr by (simp add: apply_smoother_def)
qed

lemma exact_planning_jerk_leaves:
  assumes neg: "step < 0"
  shows "\<exists>fuel. planning_jerk_leaves (\<lambda>x y. x + y) step bound fuel pj"
proof (induction "nat \<lceil>(pj - bound) / (- step)\<rceil>" arbitrary: pj)
  case 0
  define c where "c = - step"
  have c: "0 < c" using neg by (simp add: c_def)
  from 0 have "\<lceil>(pj - bound) / c\<rceil> \<le> 0" by (simp add: c_def)
  then have "(pj - bound) / c \<le> 0" by (simp add: ceiling_le_iff)
  with c have "pj - bound \<le> 0" by (simp add: divide_le_0_iff)
  then have "planning_jerk_leaves (\<lambda>x y. x + y) step bound 0 pj" by simp
  then show ?case ..
next
  case (Suc k)
  define c where "c = - step"
  have c: "0 < c" using neg by (simp add: c_def)
  have "(pj + step - bound) / c = (pj - bound) / c - 1"
    using c by (simp add: c_def field_simps)
  then have "\<lceil>(pj + step - bound) / c\<rceil> = \<lceil>(pj - bound) / c\<rceil> - 1" by simp
  moreover from Suc.hyps(2) have "\<lceil>(pj - bound) / c\<rceil> = int (Suc k)"
    unfolding c_def by linarith
  ultimately have "k = nat \<lceil>(pj + step - bound) / c\<rceil>" by simp
  from Suc.hyps(1) [OF this [unfolded c_def]] obtain fuel where
    "planning_jerk_leaves (\<lambda>x y. x + y) step bound fuel (pj + step)" ..
  then have "planning_jerk_leaves (\<lambda>x y. x + y) step bound (Suc fuel) pj" by simp
  then show ?case ..
qed

lemma exact_jerk_scan_ends:
  assumes "arith utils = exact_arith" "bwd_span_jerk (backward params) < 0"
  shows "\<exists>fuel. jerk_scan_ends utils params fuel"
  using exact_planning_jerk_leaves [OF assms(2)] assms(1)
  by (simp add: jerk_scan_ends_def exact_arith_def)

lemma jerk_scan_ends_default: "jerk_scan_ends no_profile_utils default_param 141"
  by (simp add: jerk_scan_ends_def no_profile_utils_def exact_arith_def default_param_def
      ep_stop_def eval_nat_numeral)

lemma never_enough_no_profile: "never_enough no_profile_utils"
  by (simp add: never_enough_def no_profile_utils_def)

lemma keeps_size_no_profile: "keeps_size no_profile_utils"
  by (simp add: keeps_size_def no_profile_utils_def)

lemma local_minima_targets_slow_down2:
  "local_minima_targets (points slow_down2) 0 = [(1, 0)]"
proof -
  have u: "[0 ..< Suc 0] = [0]" by simp
  show ?thesis
    by (simp add: slow_down2_def local_minima_targets_def minima_candidates_def
        decreases_into_last_def is_coalesced_def ep_dv_def u)
qed

text \<open>
  C2, the part that does not hold for every configuration: with a jerk scan whose step is
  zero, and a stop distance computation that reports no profile (a stop from 5 m/s within
  1 m, where a full brake at \<open>min_acc = - 2.5\<close> takes 5 m), \<^verbatim>\<open>apply\<close> on a non-empty
  trajectory with a deceleration target never leaves the scan, so it returns neither
  \<^verbatim>\<open>true\<close> nor \<^verbatim>\<open>false\<close>.
\<close>

theorem apply_zero_span_never_returns:
  "points slow_down2 \<noteq> [] \<and>
   apply_smoother no_profile_utils zero_span_param 5 0 slow_down2 (trajectory_of []) = None"
proof -
  have "apply_smoother no_profile_utils zero_span_param 5 0 slow_down2 (trajectory_of []) = None"
    by (rule apply_never_returns [OF never_enough_no_profile])
      (simp_all add: zero_span_param_def default_param_def ep_stop_def no_profile_utils_def
         exact_arith_def local_minima_targets_slow_down2, simp_all add: slow_down2_def)
  then show ?thesis by (simp add: slow_down2_def)
qed

text \<open>
  C2, as the code has it: \<^verbatim>\<open>apply\<close> returns \<^verbatim>\<open>false\<close> if and only if the input has no
  points, and then the output is the caller's, unchanged (this half needs no
  assumption). Every non-empty input yields a \<^verbatim>\<open>true\<close> return with an output, provided
  the scan over the planning jerks ends (the doubles \<open>start_jerk\<close>,
  \<open>start_jerk + span_jerk\<close>, \<open>(start_jerk + span_jerk) + span_jerk\<close>, \<open>\<dots>\<close>, each sum as the
  double addition rounds it, come to \<open>min_jerk - 0.001\<close> or below after finitely many steps),
  the profile writer keeps the number of points, and the trajectory's last index fits an
  \<^verbatim>\<open>unsigned int\<close>.
\<close>

theorem apply_false_only_when_empty:
  assumes span: "jerk_scan_ends utils params fuel"
    and keep: "keeps_size utils"
    and fits: "length (points input) \<le> 2 ^ 32"
  shows "(apply_smoother utils params initial_vel initial_acc input output = Some (Inr (False, out))
            \<longleftrightarrow> points input = [] \<and> out = output) \<and>
         (points input \<noteq> [] \<longrightarrow>
            (\<exists>out'. apply_smoother utils params initial_vel initial_acc input output =
                      Some (Inr (True, out'))))"
  using apply_false_iff_empty [of utils params initial_vel initial_acc input "output" out]
    apply_returns_true [OF span keep _ fits, of initial_vel initial_acc "output"]
  by blast

text \<open>An instance with the shipped configuration: slowing from 5 m/s to a stop.\<close>

theorem apply_false_only_when_empty_witness:
  "jerk_scan_ends no_profile_utils default_param 141 \<and>
   keeps_size no_profile_utils \<and>
   length (points slow_down2) \<le> 2 ^ 32 \<and>
   points slow_down2 \<noteq> [] \<and>
   (\<exists>out'. apply_smoother no_profile_utils default_param 5 0 slow_down2 (trajectory_of []) =
             Some (Inr (True, out')))"
proof -
  note h1 = jerk_scan_ends_default
  have h3: "length (points slow_down2) \<le> 2 ^ 32" by (simp add: slow_down2_def)
  have ne: "points slow_down2 \<noteq> []" by (simp add: slow_down2_def)
  from apply_false_only_when_empty [OF h1 keeps_size_no_profile h3, of 5 0 "trajectory_of []"]
  have "points slow_down2 \<noteq> [] \<longrightarrow>
      (\<exists>out'. apply_smoother no_profile_utils default_param 5 0 slow_down2 (trajectory_of []) =
                Some (Inr (True, out')))" by (rule conjunct2)
  with ne have "\<exists>out'. apply_smoother no_profile_utils default_param 5 0 slow_down2
      (trajectory_of []) = Some (Inr (True, out'))" by (rule rev_mp)
  with h1 keeps_size_no_profile h3 ne show ?thesis by (intro conjI)
qed

section \<open>apply: the fallback when no deceleration profile fits\<close>

lemma jerk_scan_no_profile:
  assumes ne: "never_enough utils" and span: "jerk_scan_ends utils params fuel"
    and s: "s < length (points tr)" "s < length dtt"
  shows "jerk_scan utils tr s tv params dtt (bwd_start_jerk (backward params)) = Some (Inr None)"
proof -
  from jerk_scan_returns [OF span [unfolded jerk_scan_ends_def] s, of tv] obtain r where
    r: "jerk_scan utils tr s tv params dtt (bwd_start_jerk (backward params)) = Some (Inr r)" and
    found: "\<And>pj' ty tms. r = Some (pj', ty, tms) \<Longrightarrow>
              \<exists>sd. calcEnoughDistForDecel utils tr s tv pj' params dtt = Inr (True, ty, tms, sd)"
    by blast
  have "r = None"
  proof (cases r)
    case None
    then show ?thesis .
  next
    case (Some x)
    obtain pj' ty tms where "x = (pj', ty, tms)" by (cases x) auto
    with Some found [of pj' ty tms] obtain sd where
      c: "calcEnoughDistForDecel utils tr s tv pj' params dtt = Inr (True, ty, tms, sd)" by auto
    from never_enough_calcEnough [OF ne c] show ?thesis by simp
  qed
  with r show ?thesis by simp
qed

lemma scan_start_index_no_profile:
  assumes ne: "never_enough utils" and span: "jerk_scan_ends utils params fuel"
    and t: "target < length (points tr)" and s0: "s0 < target"
  shows "scan_start_index utils params tr target tv outp s0 = Some (Inr outp)"
proof -
  from t have tl: "target \<le> length (points tr)" by simp
  from advance_start_index_returns [OF tl, of tv s0 s0] s0 obtain s where
    adv: "advance_start_index (points tr) tv target s0 s0 = Inr s" and st: "s < target"
    by auto
  have "length ((replicate (length (points tr)) (0::real))[target := 0]) = length (points tr)"
    by simp
  from dist_to_target_loop_returns [OF t this, of s 0] obtain dtt where
    dl: "dist_to_target_loop (points tr) s target 0
           ((replicate (length (points tr)) 0)[target := 0]) = Inr dtt"
    and dn: "length dtt = length (points tr)" by blast
  from st t dn have sr: "s < length (points tr)" "s < length dtt" by simp_all
  from jerk_scan_no_profile [OF ne span sr]
  have "jerk_scan utils tr s tv params dtt (bwd_start_jerk (backward params)) = Some (Inr None)" .
  with adv dl t show ?thesis by (simp add: scan_start_index_def)
qed

lemma scan_start_indices_no_profile:
  assumes ne: "never_enough utils" and span: "jerk_scan_ends utils params fuel"
    and t: "target < length (points tr)"
  shows "\<forall>s \<in> set ss. s < target \<Longrightarrow>
         scan_start_indices utils params tr target tv ss outp = Some (Inr outp)"
proof (induction ss)
  case Nil
  then show ?case by simp
next
  case (Cons s ss)
  then have "s < target" by simp
  from scan_start_index_no_profile [OF ne span t this] Cons show ?case by simp
qed

lemma applyBackwardDecelFilter_no_profile:
  assumes ne: "never_enough utils" and span: "jerk_scan_ends utils params fuel"
    and t: "target < length (points tr)" and ss: "\<forall>s \<in> set ss. s < target"
  shows "applyBackwardDecelFilter utils ss target tv params tr = Some (Inr (False, tr))"
  using scan_start_indices_no_profile [OF ne span t ss, of tv BackwardOutput_init]
  by (simp add: applyBackwardDecelFilter_def BackwardOutput_init_def)

text \<open>
  C3: a pass of the loop over the deceleration targets in which
  \<^verbatim>\<open>applyBackwardDecelFilter\<close> returns \<^verbatim>\<open>false\<close> does not fail \<^verbatim>\<open>apply\<close>. When the target
  velocity is below 0.001 in magnitude, \<^verbatim>\<open>apply\<close> returns \<^verbatim>\<open>true\<close> at once, its output
  being the filtered trajectory with the velocity of every point from the backward start
  index to the end capped at 0 (and the acceleration there set to 0). Otherwise the
  velocities of the reference trajectory from the backward start index to the target index
  are capped at the target velocity, the forward jerk filter runs again from the backward
  start index with the backward start velocity and acceleration, and the loop goes on to
  the next target.
\<close>

theorem apply_backward_failure_fallback:
  assumes fw: "fwd_start ts f iv ia i = Inr (fs, fv, fa)"
    and f1: "applyForwardJerkFilter r fs fv fa params f = Inr f1"
    and bw: "bwd_start_search ts f1 iv ia i = Inr (bs, bv, ba)"
    and at: "at_vec ts i = Inr (t, tv)"
    and fail: "applyBackwardDecelFilter utils (if bs \<noteq> fs then [bs, fs] else [bs]) t tv
                 params f1 = Some (Inr (False, f2))"
    and n: "2 \<le> length (points r)" "length (points r) < 2 ^ 64"
    and f2: "length (points f2) = length (points r)"
    and bt: "bs \<le> t" "t < length (points r)"
  shows "(\<bar>tv\<bar> < 1 / 1000 \<longrightarrow>
            (\<exists>out. apply_targets utils params iv ia ts i r f = Some (Inr (True, out)) \<and>
               (\<forall>k. points out ! k =
                      (if bs \<le> k \<and> k < length (points f2)
                       then set_acc 0 (set_vel (min (vel (points f2 ! k)) 0) (points f2 ! k))
                       else points f2 ! k)))) \<and>
         (\<not> \<bar>tv\<bar> < 1 / 1000 \<longrightarrow>
            (\<exists>r' f'.
               (\<forall>k. points r' ! k =
                      (if bs \<le> k \<and> k \<le> t
                       then set_acc 0 (set_vel (min (vel (points r ! k)) tv) (points r ! k))
                       else points r ! k)) \<and>
               applyForwardJerkFilter r' bs bv ba params f2 = Inr f' \<and>
               apply_targets utils params iv ia ts i r f =
                 apply_targets utils params iv ia ts (Suc i) r' f'))"
proof -
  from at have i: "i < length ts" by (simp add: at_vec_Inr_iff)
  have step: "apply_target_step utils params iv ia ts i r f =
      Some (decel_fallback params bs bv ba t tv r f2)"
    using fw f1 bw at fail by (simp add: apply_target_step_def)
  have run: "apply_targets utils params iv ia ts i r f =
      (case decel_fallback params bs bv ba t tv r f2 of
         Inl e \<Rightarrow> Some (Inl e)
       | Inr (Finish out) \<Rightarrow> Some (Inr (True, out))
       | Inr (Continue r' f') \<Rightarrow> apply_targets utils params iv ia ts (Suc i) r' f')"
    using i step by (simp add: apply_targets.simps [of utils params iv ia ts i r f])
  show ?thesis
  proof (intro conjI impI)
    assume small: "\<bar>tv\<bar> < 1 / 1000"
    have "0 < length (points r)" using n(1) by (simp del: length_greater_0_conv)
    from size_t_sub_1 [OF this n(2)]
    have sz: "size_t_sub (length (points f2)) 1 = length (points r) - 1"
      unfolding f2 .
    have "length (points r) - 1 < length (points f2)" using n f2 by simp
    from applyMaxVelocity_in_range [OF this, of 0 bs] obtain x where
      x: "applyMaxVelocity 0 bs (length (points r) - 1) f2 = Inr x" and
      xc: "\<forall>k. points (snd x) ! k =
                  (if bs \<le> k \<and> k \<le> length (points r) - 1
                   then set_acc 0 (set_vel (min (vel (points f2 ! k)) 0) (points f2 ! k))
                   else points f2 ! k)" by blast
    have "\<forall>k. points (snd x) ! k =
                  (if bs \<le> k \<and> k < length (points f2)
                   then set_acc 0 (set_vel (min (vel (points f2 ! k)) 0) (points f2 ! k))
                   else points f2 ! k)"
    proof
      fix k
      have "k \<le> length (points r) - 1 \<longleftrightarrow> k < length (points f2)" using n f2 by auto
      with xc [rule_format, of k] show "points (snd x) ! k =
                  (if bs \<le> k \<and> k < length (points f2)
                   then set_acc 0 (set_vel (min (vel (points f2 ! k)) 0) (points f2 ! k))
                   else points f2 ! k)" by simp
    qed
    moreover have "apply_targets utils params iv ia ts i r f = Some (Inr (True, snd x))"
      unfolding run using small x sz by (simp add: decel_fallback_def ep_stop_def)
    ultimately show "\<exists>out. apply_targets utils params iv ia ts i r f = Some (Inr (True, out)) \<and>
               (\<forall>k. points out ! k =
                      (if bs \<le> k \<and> k < length (points f2)
                       then set_acc 0 (set_vel (min (vel (points f2 ! k)) 0) (points f2 ! k))
                       else points f2 ! k))" by blast
  next
    assume big: "\<not> \<bar>tv\<bar> < 1 / 1000"
    from applyMaxVelocity_in_range [OF bt(2), of tv bs] obtain x where
      x: "applyMaxVelocity tv bs t r = Inr x" and
      xl: "length (points (snd x)) = length (points r)" and
      xc: "\<forall>k. points (snd x) ! k =
                  (if bs \<le> k \<and> k \<le> t
                   then set_acc 0 (set_vel (min (vel (points r ! k)) tv) (points r ! k))
                   else points r ! k)" by blast
    have "bs < length (points f2)" "length (points (snd x)) \<le> length (points f2)"
      using bt f2 xl by simp_all
    from applyForwardJerkFilter_returns [OF this, of bv ba params] obtain f' where
      f': "applyForwardJerkFilter (snd x) bs bv ba params f2 = Inr f'" by blast
    have "apply_targets utils params iv ia ts i r f =
            apply_targets utils params iv ia ts (Suc i) (snd x) f'"
      unfolding run using big x f' by (simp add: decel_fallback_def ep_stop_def)
    with xc f' show "\<exists>r' f'.
               (\<forall>k. points r' ! k =
                      (if bs \<le> k \<and> k \<le> t
                       then set_acc 0 (set_vel (min (vel (points r ! k)) tv) (points r ! k))
                       else points r ! k)) \<and>
               applyForwardJerkFilter r' bs bv ba params f2 = Inr f' \<and>
               apply_targets utils params iv ia ts i r f =
                 apply_targets utils params iv ia ts (Suc i) r' f'" by blast
  qed
qed


text \<open>
  An instance: slowing from 5 m/s to a stop over one metre, with planning utilities that
  find no profile. The only target is the stop at index 1; the fallback ends \<^verbatim>\<open>apply\<close>.
\<close>

theorem apply_backward_failure_fallback_witness:
  "\<exists>f1. fwd_start [(1, 0)] slow_down2 5 0 0 = Inr (0, 5, 0) \<and>
     applyForwardJerkFilter slow_down2 0 5 0 default_param slow_down2 = Inr f1 \<and>
     bwd_start_search [(1, 0)] f1 5 0 0 = Inr (0, 5, 0) \<and>
     at_vec [(1, 0 :: real)] 0 = Inr (1 :: nat, 0) \<and>
     applyBackwardDecelFilter no_profile_utils [0] 1 0 default_param f1 = Some (Inr (False, f1)) \<and>
     2 \<le> length (points slow_down2) \<and>
     length (points slow_down2) < 2 ^ 64 \<and>
     length (points f1) = length (points slow_down2) \<and>
     (0 :: nat) \<le> 1 \<and>
     1 < length (points slow_down2) \<and>
     (\<exists>out. apply_targets no_profile_utils default_param 5 0 [(1, 0)] 0 slow_down2 slow_down2 =
              Some (Inr (True, out)) \<and>
            vel (points out ! 1) = min (vel (points f1 ! 1)) 0 \<and>
            acc (points out ! 1) = 0)"
proof -
  have l: "length (points slow_down2) = 2" by (simp add: slow_down2_def)
  have h1: "fwd_start [(1, 0)] slow_down2 5 0 0 = Inr (0, 5, 0)" by (simp add: fwd_start_def)
  have "0 < length (points slow_down2)" "length (points slow_down2) \<le> length (points slow_down2)"
    using l by simp_all
  from forward_filter_keeps_length [OF this, of 5 0 default_param] obtain f1 where
    h2: "applyForwardJerkFilter slow_down2 0 5 0 default_param slow_down2 = Inr f1" and
    h8: "length (points f1) = length (points slow_down2)" by blast
  have h3: "bwd_start_search [(1, 0)] f1 5 0 0 = Inr (0, 5, 0)" by simp
  have h4: "at_vec [(1, 0 :: real)] 0 = Inr (1 :: nat, 0)" by simp
  note sp = jerk_scan_ends_default
  have "1 < length (points f1)" using h8 l by simp
  moreover have "\<forall>s \<in> set [0 :: nat]. s < 1" by simp
  ultimately have h5: "applyBackwardDecelFilter no_profile_utils [0] 1 0 default_param f1 =
      Some (Inr (False, f1))"
    by (rule applyBackwardDecelFilter_no_profile [OF never_enough_no_profile sp])
  have h5': "applyBackwardDecelFilter no_profile_utils (if (0::nat) \<noteq> 0 then [0, 0] else [0]) 1 0
      default_param f1 = Some (Inr (False, f1))" using h5 by simp
  have h6: "2 \<le> length (points slow_down2)" and h7: "length (points slow_down2) < 2 ^ 64"
    and h9: "(0 :: nat) \<le> 1" and h10: "1 < length (points slow_down2)"
    using l by simp_all
  note t = apply_backward_failure_fallback [OF h1 h2 h3 h4 h5' h6 h7 h8 h9 h10]
  have "\<bar>0 :: real\<bar> < 1 / 1000" by simp
  with t [THEN conjunct1] obtain out where
    o: "apply_targets no_profile_utils default_param 5 0 [(1, 0)] 0 slow_down2 slow_down2 =
          Some (Inr (True, out))" and
    c: "\<forall>k. points out ! k =
           (if 0 \<le> k \<and> k < length (points f1)
            then set_acc 0 (set_vel (min (vel (points f1 ! k)) 0) (points f1 ! k))
            else points f1 ! k)" by blast
  from c [rule_format, of 1] h8 l have
    "vel (points out ! 1) = min (vel (points f1 ! 1)) 0" "acc (points out ! 1) = 0" by simp_all
  with o have "\<exists>out. apply_targets no_profile_utils default_param 5 0 [(1, 0)] 0 slow_down2
       slow_down2 = Some (Inr (True, out)) \<and>
     vel (points out ! 1) = min (vel (points f1 ! 1)) 0 \<and> acc (points out ! 1) = 0" by blast
  with h1 h2 h3 h4 h5 h6 h7 h8 h9 h10 show ?thesis by blast
qed

section \<open>apply: the velocity cap is not jerk limited\<close>








section \<open>apply: the forward bounds from the last target on\<close>
















section \<open>applyLateralAccelerationFilter: the capping loop\<close>

lemma window_curvature_eq:
  "e \<le> length cv \<Longrightarrow>
   window_curvature cv j e c = Inr (Max (insert c ((\<lambda>j. \<bar>cv ! j\<bar>) ` {j ..< e})))"
proof (induction "e - j" arbitrary: j c)
  case 0
  then have "\<not> j < e" by simp
  then show ?case by (simp add: window_curvature.simps [of cv j e c])
next
  case (Suc n)
  then have je: "j < e" and jl: "j < length cv" by simp_all
  from Suc.hyps(2) have n: "n = e - Suc j" by simp
  have step: "window_curvature cv j e c = window_curvature cv (Suc j) e (max c \<bar>cv ! j\<bar>)"
    using je jl by (simp add: window_curvature.simps [of cv j e c])
  define S where "S = (\<lambda>j. \<bar>cv ! j\<bar>) ` {Suc j ..< e}"
  have fin: "finite S" by (simp add: S_def)
  have split: "{j ..< e} = insert j {Suc j ..< e}" using je by auto
  have img: "(\<lambda>j. \<bar>cv ! j\<bar>) ` {j ..< e} = insert \<bar>cv ! j\<bar> S"
    unfolding split S_def by simp
  have "Max (insert c (insert \<bar>cv ! j\<bar> S)) = Max (insert (max c \<bar>cv ! j\<bar>) S)"
  proof (cases "S = {}")
    case True
    then show ?thesis by (simp add: max.commute)
  next
    case False
    with fin show ?thesis by (simp add: max.assoc)
  qed
  then show ?case
    unfolding step Suc.hyps(1) [OF n Suc.prems] img S_def by simp
qed

lemma calcDistance2d_set_vel [simp]:
  "calcDistance2d (set_vel v p) q = calcDistance2d p q"
  "calcDistance2d p (set_vel v q) = calcDistance2d p q"
  by (simp_all add: calcDistance2d_def)

lemma latacc_cap_loop_char:
  assumes cv: "n \<le> length cv"
  shows "length pts = n \<Longrightarrow>
   \<exists>pts'. latacc_cap_loop da bp cv i pts fps =
       Inr (pts', fps @ filter (\<lambda>k. vel (pts ! k) > velocity_cap da bp cv n k) [i ..< n]) \<and>
     length pts' = n \<and>
     (\<forall>k. pts' ! k =
        (if i \<le> k \<and> k < n \<and> vel (pts ! k) > velocity_cap da bp cv n k
         then set_vel (velocity_cap da bp cv n k) (pts ! k) else pts ! k))"
proof (induction "n - i" arbitrary: i pts fps)
  case 0
  then have "\<not> i < length pts" by simp
  with 0 show ?case by (simp add: latacc_cap_loop.simps [of da bp cv i pts fps])
next
  case (Suc m)
  then have i: "i < n" "i < length pts" by simp_all
  from Suc.hyps(2) have m: "m = n - Suc i" by simp
  have "window_end da bp n i \<le> length cv" using cv by (simp add: window_end_def)
  from window_curvature_eq [OF this, of "window_start da bp i" 0]
  have wc: "window_curvature cv (window_start da bp i) (window_end da bp n i) 0 =
      Inr (point_curvature da bp cv n i)"
    by (simp add: point_curvature_def window_curvature_max_def)
  have upt: "[i ..< n] = i # [Suc i ..< n]" using i by (simp add: upt_conv_Cons)
  show ?case
  proof (cases "vel (pts ! i) > velocity_cap da bp cv n i")
    case True
    define pts1 where "pts1 = pts[i := set_vel (velocity_cap da bp cv n i) (pts ! i)]"
    have step: "latacc_cap_loop da bp cv i pts fps = latacc_cap_loop da bp cv (Suc i) pts1 (fps @ [i])"
      using i True wc Suc.prems
      by (simp add: latacc_cap_loop.simps [of da bp cv i pts fps] Let_def window_start_def
          window_end_def velocity_cap_def pts1_def)
    have l1: "length pts1 = n" using Suc.prems by (simp add: pts1_def)
    from Suc.hyps(1) [OF m l1, of "fps @ [i]"] obtain pts' where
      r: "latacc_cap_loop da bp cv (Suc i) pts1 (fps @ [i]) =
           Inr (pts', (fps @ [i]) @ filter (\<lambda>k. vel (pts1 ! k) > velocity_cap da bp cv n k) [Suc i ..< n])"
      and l: "length pts' = n"
      and c: "\<forall>k. pts' ! k =
        (if Suc i \<le> k \<and> k < n \<and> vel (pts1 ! k) > velocity_cap da bp cv n k
         then set_vel (velocity_cap da bp cv n k) (pts1 ! k) else pts1 ! k)" by blast
    have same: "filter (\<lambda>k. vel (pts1 ! k) > velocity_cap da bp cv n k) [Suc i ..< n] =
        filter (\<lambda>k. vel (pts ! k) > velocity_cap da bp cv n k) [Suc i ..< n]"
      by (rule filter_cong) (auto simp: pts1_def)
    have "\<forall>k. pts' ! k =
        (if i \<le> k \<and> k < n \<and> vel (pts ! k) > velocity_cap da bp cv n k
         then set_vel (velocity_cap da bp cv n k) (pts ! k) else pts ! k)"
    proof
      fix k
      show "pts' ! k =
        (if i \<le> k \<and> k < n \<and> vel (pts ! k) > velocity_cap da bp cv n k
         then set_vel (velocity_cap da bp cv n k) (pts ! k) else pts ! k)"
      proof (cases "k = i")
        case k: True
        with c [rule_format, of k] i True show ?thesis by (simp add: pts1_def)
      next
        case False
        with c [rule_format, of k] show ?thesis by (auto simp: pts1_def)
      qed
    qed
    with r l True show ?thesis unfolding step same upt by simp
  next
    case False
    have step: "latacc_cap_loop da bp cv i pts fps = latacc_cap_loop da bp cv (Suc i) pts fps"
      using i False wc Suc.prems
      by (simp add: latacc_cap_loop.simps [of da bp cv i pts fps] Let_def window_start_def
          window_end_def velocity_cap_def)
    from Suc.hyps(1) [OF m Suc.prems, of fps] obtain pts' where
      r: "latacc_cap_loop da bp cv (Suc i) pts fps =
           Inr (pts', fps @ filter (\<lambda>k. vel (pts ! k) > velocity_cap da bp cv n k) [Suc i ..< n])"
      and l: "length pts' = n"
      and c: "\<forall>k. pts' ! k =
        (if Suc i \<le> k \<and> k < n \<and> vel (pts ! k) > velocity_cap da bp cv n k
         then set_vel (velocity_cap da bp cv n k) (pts ! k) else pts ! k)" by blast
    have "\<forall>k. pts' ! k =
        (if i \<le> k \<and> k < n \<and> vel (pts ! k) > velocity_cap da bp cv n k
         then set_vel (velocity_cap da bp cv n k) (pts ! k) else pts ! k)"
    proof
      fix k
      from c [rule_format, of k] False show "pts' ! k =
        (if i \<le> k \<and> k < n \<and> vel (pts ! k) > velocity_cap da bp cv n k
         then set_vel (velocity_cap da bp cv n k) (pts ! k) else pts ! k)"
        by (cases "k = i") auto
    qed
    with r l False show ?thesis unfolding step upt by simp
  qed
qed

section \<open>applyLateralAccelerationFilter: ranges and plateaus\<close>

lemma split_runs_concat: "concat (split_runs close cur rest) = cur @ rest"
  by (induction rest arbitrary: cur) auto

lemma split_runs_nonempty: "cur \<noteq> [] \<Longrightarrow> g \<in> set (split_runs close cur rest) \<Longrightarrow> g \<noteq> []"
  by (induction rest arbitrary: cur) (auto split: if_splits)

lemma runs_of_concat: "concat (runs_of close xs) = xs"
  by (cases xs) (simp_all add: runs_of_def split_runs_concat)

lemma runs_of_nonempty: "g \<in> set (runs_of close xs) \<Longrightarrow> g \<noteq> []"
  by (cases xs) (auto simp: runs_of_def dest: split_runs_nonempty [rotated])

lemma latacc_ranges_loop_open:
  fixes pts thr
  defines "close \<equiv> \<lambda>a b. calcDistance2d (pts ! a) (pts ! b) < thr"
  shows "\<forall>x \<in> set cur \<union> set rest. x < length pts \<Longrightarrow> cur \<noteq> [] \<Longrightarrow>
     rs_is_updated st \<Longrightarrow> rs_start_index st = hd cur \<Longrightarrow> rs_end_index st = last cur \<Longrightarrow>
     rs_min_latacc_velocity st = Min ((\<lambda>j. vel (pts ! j)) ` set cur) \<Longrightarrow>
     \<exists>st'. latacc_ranges_loop pts thr rest st = Inr st' \<and> rs_is_updated st' \<and>
        rs_ranges st' @ [(rs_start_index st', rs_end_index st', rs_min_latacc_velocity st')] =
        rs_ranges st @ map (range_of pts) (split_runs close cur rest)"
proof (induction rest arbitrary: cur st)
  case Nil
  then show ?case by (simp add: range_of_def)
next
  case (Cons x xs)
  from Cons.prems(1) have xl: "x < length pts" by simp
  from Cons.prems(1,2) have ll: "last cur < length pts" by simp
  show ?case
  proof (cases "close (last cur) x")
    case True
    define st1 where "st1 = st\<lparr>rs_end_index := x,
        rs_min_latacc_velocity := min (vel (pts ! x)) (rs_min_latacc_velocity st)\<rparr>"
    have step: "latacc_ranges_loop pts thr (x # xs) st = latacc_ranges_loop pts thr xs st1"
      using xl ll True Cons.prems(3,5) by (simp add: close_def st1_def)
    have a: "\<forall>y \<in> set (cur @ [x]) \<union> set xs. y < length pts" using Cons.prems(1) by auto
    have m: "rs_min_latacc_velocity st1 = Min ((\<lambda>j. vel (pts ! j)) ` set (cur @ [x]))"
      using Cons.prems(2,6) by (simp add: st1_def min.commute)
    have "\<exists>st'. latacc_ranges_loop pts thr xs st1 = Inr st' \<and> rs_is_updated st' \<and>
        rs_ranges st' @ [(rs_start_index st', rs_end_index st', rs_min_latacc_velocity st')] =
        rs_ranges st1 @ map (range_of pts) (split_runs close (cur @ [x]) xs)"
      by (rule Cons.IH [OF a _ _ _ _ m])
         (use Cons.prems in \<open>simp_all add: st1_def\<close>)
    with True show ?thesis unfolding step by (simp add: st1_def)
  next
    case False
    define st1 where "st1 = st\<lparr>rs_ranges := rs_ranges st @
          [(rs_start_index st, rs_end_index st, rs_min_latacc_velocity st)],
        rs_start_index := x, rs_end_index := x, rs_min_latacc_velocity := vel (pts ! x)\<rparr>"
    have step: "latacc_ranges_loop pts thr (x # xs) st = latacc_ranges_loop pts thr xs st1"
      using xl ll False Cons.prems(3,5) by (simp add: close_def st1_def)
    have a: "\<forall>y \<in> set [x] \<union> set xs. y < length pts" using Cons.prems(1) by auto
    have "\<exists>st'. latacc_ranges_loop pts thr xs st1 = Inr st' \<and> rs_is_updated st' \<and>
        rs_ranges st' @ [(rs_start_index st', rs_end_index st', rs_min_latacc_velocity st')] =
        rs_ranges st1 @ map (range_of pts) (split_runs close [x] xs)"
      by (rule Cons.IH [OF a]) (use Cons.prems in \<open>simp_all add: st1_def\<close>)
    with False Cons.prems(4,5,6) show ?thesis unfolding step
      by (simp add: st1_def range_of_def [abs_def])
  qed
qed

lemma latacc_filtered_ranges_eq:
  assumes "\<forall>x \<in> set fps. x < length pts"
  shows "latacc_filtered_ranges pts thr fps =
     Inr (map (range_of pts)
            (runs_of (\<lambda>a b. calcDistance2d (pts ! a) (pts ! b) < thr) fps))"
proof (cases fps)
  case Nil
  then show ?thesis
    by (simp add: latacc_filtered_ranges_def RangeState_init_def runs_of_def)
next
  case (Cons x rest)
  define st1 where "st1 = RangeState_init\<lparr>rs_start_index := x, rs_end_index := x,
      rs_min_latacc_velocity := vel (pts ! x), rs_is_updated := True\<rparr>"
  from assms Cons have xl: "x < length pts" by simp
  have step: "latacc_ranges_loop pts thr fps RangeState_init = latacc_ranges_loop pts thr rest st1"
    using xl Cons by (simp add: st1_def RangeState_init_def)
  have a: "\<forall>y \<in> set [x] \<union> set rest. y < length pts" using assms Cons by auto
  have "\<exists>st'. latacc_ranges_loop pts thr rest st1 = Inr st' \<and> rs_is_updated st' \<and>
        rs_ranges st' @ [(rs_start_index st', rs_end_index st', rs_min_latacc_velocity st')] =
        rs_ranges st1 @ map (range_of pts)
          (split_runs (\<lambda>a b. calcDistance2d (pts ! a) (pts ! b) < thr) [x] rest)"
    by (rule latacc_ranges_loop_open [OF a]) (simp_all add: st1_def)
  then obtain st' where
    "latacc_ranges_loop pts thr rest st1 = Inr st'" "rs_is_updated st'"
    "rs_ranges st' @ [(rs_start_index st', rs_end_index st', rs_min_latacc_velocity st')] =
        map (range_of pts) (split_runs (\<lambda>a b. calcDistance2d (pts ! a) (pts ! b) < thr) [x] rest)"
    by (auto simp: st1_def RangeState_init_def)
  then show ?thesis
    unfolding latacc_filtered_ranges_def step by (simp add: runs_of_def Cons)
qed

lemma latacc_plateau_loop_char:
  "\<exists>pts'. latacc_plateau_loop en ranges i pts = Inr pts' \<and> length pts' = length pts \<and>
     (\<forall>k. pts' ! k =
        (if i \<le> k \<and> k < length pts
         then (case first_range_velocity en k ranges of
                 None \<Rightarrow> pts ! k | Some v \<Rightarrow> set_vel v (pts ! k))
         else pts ! k))"
proof (induction "length pts - i" arbitrary: i pts)
  case 0
  then have "\<not> i < length pts" by simp
  then show ?case by (simp add: latacc_plateau_loop.simps [of en ranges i pts])
next
  case (Suc m)
  then have i: "i < length pts" by simp
  define pts1 where "pts1 = (case first_range_velocity en i ranges of
      None \<Rightarrow> pts | Some v \<Rightarrow> pts[i := set_vel v (pts ! i)])"
  have l1: "length pts1 = length pts" by (simp add: pts1_def split: option.splits)
  have step: "latacc_plateau_loop en ranges i pts = latacc_plateau_loop en ranges (Suc i) pts1"
    using i by (simp add: latacc_plateau_loop.simps [of en ranges i pts] pts1_def
        split: option.splits)
  from Suc.hyps(2) l1 have m: "m = length pts1 - Suc i" by simp
  from Suc.hyps(1) [OF m] obtain pts' where
    r: "latacc_plateau_loop en ranges (Suc i) pts1 = Inr pts'" and
    l: "length pts' = length pts1" and
    c: "\<forall>k. pts' ! k =
        (if Suc i \<le> k \<and> k < length pts1
         then (case first_range_velocity en k ranges of
                 None \<Rightarrow> pts1 ! k | Some v \<Rightarrow> set_vel v (pts1 ! k))
         else pts1 ! k)" by blast
  have other: "pts1 ! k = pts ! k" if "k \<noteq> i" for k
    using that by (simp add: pts1_def split: option.splits)
  have at_i: "pts1 ! i = (case first_range_velocity en i ranges of
                 None \<Rightarrow> pts ! i | Some v \<Rightarrow> set_vel v (pts ! i))"
    using i by (simp add: pts1_def split: option.splits)
  have "\<forall>k. pts' ! k =
        (if i \<le> k \<and> k < length pts
         then (case first_range_velocity en k ranges of
                 None \<Rightarrow> pts ! k | Some v \<Rightarrow> set_vel v (pts ! k))
         else pts ! k)"
  proof
    fix k
    show "pts' ! k =
        (if i \<le> k \<and> k < length pts
         then (case first_range_velocity en k ranges of
                 None \<Rightarrow> pts ! k | Some v \<Rightarrow> set_vel v (pts ! k))
         else pts ! k)"
    proof (cases "k = i")
      case True
      from c [rule_format, of i] at_i i show ?thesis unfolding True by simp
    next
      case False
      with c [rule_format, of k] other [OF False] l1 show ?thesis
        by (auto split: option.splits)
    qed
  qed
  with r l l1 show ?case unfolding step by simp
qed

lemma first_range_velocity_disabled: "first_range_velocity False k ranges = None"
  by (induction ranges) auto

lemma sorted_run_bounds:
  fixes g :: "nat list"
  assumes "sorted_wrt (<) g" "k \<in> set g"
  shows "hd g \<le> k" "k \<le> last g"
proof -
  from assms(2) obtain i where i: "i < length g" "g ! i = k" by (auto simp: in_set_conv_nth)
  then have ne: "g \<noteq> []" by auto
  have "g ! 0 \<le> g ! i"
    using sorted_wrt_nth_less [OF assms(1), of 0 i] i by (cases "i = 0") auto
  with i ne show "hd g \<le> k" by (simp add: hd_conv_nth)
  have "g ! i \<le> g ! (length g - 1)"
  proof (cases "i = length g - 1")
    case True
    then show ?thesis by simp
  next
    case False
    with i have "i < length g - 1" "length g - 1 < length g" by simp_all
    from sorted_wrt_nth_less [OF assms(1) this] show ?thesis by simp
  qed
  with i ne show "k \<le> last g" by (simp add: last_conv_nth)
qed

lemma first_range_velocity_runs:
  "sorted_wrt (<) (concat gs) \<Longrightarrow> \<forall>g \<in> set gs. g \<noteq> [] \<Longrightarrow> g \<in> set gs \<Longrightarrow> k \<in> set g \<Longrightarrow>
   first_range_velocity True k (map (range_of pts) gs) =
     Some (Min ((\<lambda>j. vel (pts ! j)) ` set g))"
proof (induction gs)
  case Nil
  then show ?case by simp
next
  case (Cons g0 gs)
  from Cons.prems(1) have s0: "sorted_wrt (<) g0" and s': "sorted_wrt (<) (concat gs)"
    and sep: "\<forall>x \<in> set g0. \<forall>y \<in> set (concat gs). x < y"
    by (auto simp: sorted_wrt_append)
  show ?case
  proof (cases "k \<in> set g0")
    case True
    have "g = g0"
    proof (rule ccontr)
      assume "g \<noteq> g0"
      with Cons.prems(3) have "g \<in> set gs" by simp
      with Cons.prems(4) have "k \<in> set (concat gs)" by auto
      with sep True show False by auto
    qed
    with sorted_run_bounds [OF s0 True] show ?thesis by (simp add: range_of_def [abs_def])
  next
    case False
    with Cons.prems(3,4) have g: "g \<in> set gs" by auto
    with Cons.prems(4) have kc: "k \<in> set (concat gs)" by auto
    from Cons.prems(2) have ne: "g0 \<noteq> []" by simp
    then have "last g0 \<in> set g0" by simp
    with sep kc have "last g0 < k" by blast
    then have skip: "\<not> (hd g0 \<le> k \<and> k \<le> last g0 \<and> True)" by simp
    from Cons.prems(2) have "\<forall>g \<in> set gs. g \<noteq> []" by simp
    from Cons.IH [OF s' this g Cons.prems(4)] skip show ?thesis
      by (auto simp: range_of_def [abs_def])
  qed
qed

section \<open>applyLateralAccelerationFilter: the velocity cap\<close>

lemma window_curvature_max_nonneg: "0 \<le> window_curvature_max cv s e"
  unfolding window_curvature_max_def by (rule Max_ge) simp_all

lemma lateral_bound_of_cap:
  assumes le: "v \<le> v_curvature_max_of bp c" and c: "0 \<le> c"
    and v: "0 \<le> v" and fl: "min_curve_velocity bp < v"
  shows "v\<^sup>2 * c \<le> \<bar>max_lateral_accel bp\<bar>"
proof -
  define A where "A = \<bar>max_lateral_accel bp\<bar>"
  define m where "m = max c (1 / 100000)"
  have m: "0 < m" "c \<le> m" by (simp_all add: m_def)
  have A: "0 \<le> A" by (simp add: A_def)
  from le fl have "v \<le> sqrt (A / m)"
    by (simp add: v_curvature_max_of_def A_def m_def)
  with v have "v\<^sup>2 \<le> (sqrt (A / m))\<^sup>2" by (simp add: power_mono)
  also have "\<dots> = A / m" using A m by simp
  finally have "v\<^sup>2 \<le> A / m" .
  then have "v\<^sup>2 * c \<le> (A / m) * c" using c by (rule mult_right_mono)
  also have "\<dots> \<le> (A / m) * m"
  proof (rule mult_left_mono)
    show "c \<le> m" by (rule m(2))
    show "0 \<le> A / m" using A m by simp
  qed
  also have "\<dots> = A" using m by simp
  finally show ?thesis by (simp add: A_def)
qed

lemma capped_indices_props:
  "sorted_wrt (<) (capped_indices da bp cv pts)"
  "\<forall>k \<in> set (capped_indices da bp cv pts). k < length pts \<and>
      vel (pts ! k) > velocity_cap da bp cv (length pts) k"
proof -
  show "sorted_wrt (<) (capped_indices da bp cv pts)"
    unfolding capped_indices_def by (rule sorted_wrt_filter) simp
  show "\<forall>k \<in> set (capped_indices da bp cv pts). k < length pts \<and>
      vel (pts ! k) > velocity_cap da bp cv (length pts) k"
    by (auto simp: capped_indices_def)
qed

lemma applyLateralAccelerationFilter_char:
  assumes three: "3 \<le> length (points input)"
    and arc: "calcArclengthArray tu input \<noteq> []"
    and steps: "arclength_steps da (last (calcArclengthArray tu input)) 0 [] = Some out_arclength"
    and interp: "applyLinearInterpolation tu (calcArclengthArray tu input) input out_arclength =
                   Some interpolated"
    and ne: "points interpolated \<noteq> []"
    and curv: "calcTrajectoryCurvatureFrom3Points tu (keep_final_speed input interpolated) (idx_dist da) =
                 Some cv"
    and cvl: "length (points interpolated) \<le> length cv"
  shows "\<exists>out. applyLateralAccelerationFilter da tu bp sp input = Some (Inr (Some out)) \<and>
     length (points out) = length (points interpolated) \<and>
     (\<not> enable_constant_velocity_while_turning (latacc sp) \<longrightarrow>
        (\<forall>k < length (points interpolated).
           vel (points out ! k) =
             min (vel (points (keep_final_speed input interpolated) ! k))
                 (velocity_cap da bp cv (length (points interpolated)) k))) \<and>
     (enable_constant_velocity_while_turning (latacc sp) \<longrightarrow>
        (\<forall>g \<in> set (capped_groups da bp (constant_velocity_dist_threshold (latacc sp)) cv
                      (points (keep_final_speed input interpolated))).
           \<forall>k \<in> set g.
             vel (points out ! k) = Min (velocity_cap da bp cv (length (points interpolated)) ` set g)))"
proof -
  define p1 where "p1 = points (keep_final_speed input interpolated)"
  define n where "n = length (points interpolated)"
  define thr where "thr = constant_velocity_dist_threshold (latacc sp)"
  define en where "en = enable_constant_velocity_while_turning (latacc sp)"
  define F where "F = capped_indices da bp cv p1"
  have p1l: "length p1 = n" by (simp add: p1_def n_def keep_final_speed_def)
  have cvn: "n \<le> length cv" using cvl by (simp add: n_def)
  from latacc_cap_loop_char [OF cvn p1l, of da bp 0 "[]"] obtain p2 where
    cap: "latacc_cap_loop da bp cv 0 p1 [] = Inr (p2, F)" and p2l: "length p2 = n" and
    p2c: "\<forall>k. p2 ! k = (if 0 \<le> k \<and> k < n \<and> vel (p1 ! k) > velocity_cap da bp cv n k
                         then set_vel (velocity_cap da bp cv n k) (p1 ! k) else p1 ! k)"
    by (auto simp: F_def capped_indices_def p1l)
  have Fs: "sorted_wrt (<) F" and
    Fp: "\<forall>k \<in> set F. k < n \<and> vel (p1 ! k) > velocity_cap da bp cv n k"
    using capped_indices_props [of da bp cv p1] by (simp_all add: F_def p1l)
  have close_eq: "(\<lambda>a b. calcDistance2d (p2 ! a) (p2 ! b) < thr) =
      (\<lambda>a b. calcDistance2d (p1 ! a) (p1 ! b) < thr)"
    by (intro ext) (simp add: p2c)
  define gs where "gs = runs_of (\<lambda>a b. calcDistance2d (p1 ! a) (p1 ! b) < thr) F"
  have "\<forall>x \<in> set F. x < length p2" using Fp p2l by simp
  from latacc_filtered_ranges_eq [OF this, of thr]
  have rg: "latacc_filtered_ranges p2 thr F = Inr (map (range_of p2) gs)"
    unfolding close_eq gs_def .
  from latacc_plateau_loop_char [of en "map (range_of p2) gs" 0 p2] obtain p3 where
    pl: "latacc_plateau_loop en (map (range_of p2) gs) 0 p2 = Inr p3" and
    p3l: "length p3 = n" and
    p3c: "\<forall>k. p3 ! k =
        (if 0 \<le> k \<and> k < length p2
         then (case first_range_velocity en k (map (range_of p2) gs) of
                 None \<Rightarrow> p2 ! k | Some v \<Rightarrow> set_vel v (p2 ! k))
         else p2 ! k)" using p2l by auto
  define out where "out = (keep_final_speed input interpolated)\<lparr>points := p3\<rparr>"
  have nz: "points input \<noteq> []" "\<not> length (points input) < 3" using three by auto
  have run: "applyLateralAccelerationFilter da tu bp sp input = Some (Inr (Some out))"
    using nz arc steps interp ne curv cap rg pl
    by (simp add: applyLateralAccelerationFilter_def Let_def p1_def [symmetric]
        thr_def [symmetric] en_def [symmetric] out_def)
  have len: "length (points out) = length (points interpolated)" by (simp add: out_def p3l n_def)
  have off: "\<not> en \<longrightarrow> (\<forall>k < n. vel (points out ! k) = min (vel (p1 ! k)) (velocity_cap da bp cv n k))"
  proof (intro impI allI)
    fix k assume "\<not> en" "k < n"
    then have "p3 ! k = p2 ! k"
      using p3c [rule_format, of k] by (simp add: first_range_velocity_disabled)
    with p2c [rule_format, of k] \<open>k < n\<close>
    show "vel (points out ! k) = min (vel (p1 ! k)) (velocity_cap da bp cv n k)"
      by (simp add: out_def min_def)
  qed
  have on: "en \<longrightarrow> (\<forall>g \<in> set gs. \<forall>k \<in> set g.
      vel (points out ! k) = Min (velocity_cap da bp cv n ` set g))"
  proof (intro impI ballI)
    fix g k assume en: en and g: "g \<in> set gs" and k: "k \<in> set g"
    have cc: "concat gs = F" unfolding gs_def by (rule runs_of_concat)
    have gne: "\<forall>g \<in> set gs. g \<noteq> []" unfolding gs_def using runs_of_nonempty by blast
    have sub: "set g \<subseteq> set F" using g cc by auto
    have "sorted_wrt (<) (concat gs)" using Fs cc by simp
    from first_range_velocity_runs [OF this gne g k, of p2] en
    have fr: "first_range_velocity en k (map (range_of p2) gs) =
        Some (Min ((\<lambda>j. vel (p2 ! j)) ` set g))" by simp
    have img: "(\<lambda>j. vel (p2 ! j)) ` set g = velocity_cap da bp cv n ` set g"
    proof (rule image_cong [OF refl])
      fix j assume "j \<in> set g"
      with sub Fp have "j < n" "vel (p1 ! j) > velocity_cap da bp cv n j" by auto
      with p2c [rule_format, of j] show "vel (p2 ! j) = velocity_cap da bp cv n j" by simp
    qed
    from k sub Fp have "k < n" by auto
    with p3c [rule_format, of k] fr p2l
    have "p3 ! k = set_vel (Min ((\<lambda>j. vel (p2 ! j)) ` set g)) (p2 ! k)" by simp
    then show "vel (points out ! k) = Min (velocity_cap da bp cv n ` set g)"
      by (simp add: out_def img)
  qed
  from run len off on show ?thesis
    unfolding en_def n_def p1_def gs_def F_def thr_def capped_groups_def by blast
qed

lemma velocity_cap_floor: "min_curve_velocity bp \<le> velocity_cap da bp cv n k"
  by (simp add: velocity_cap_def v_curvature_max_of_def)

section \<open>applyLateralAccelerationFilter: a slow point between two capped ones\<close>









end
